theory Spec2Isabelle
  imports Complex_Main "HOL-Library.Multiset"
begin

section \<open>Card detection and matching pipeline of app.py\<close>

text \<open>
  The program is a straight-line pipeline over four external libraries (OpenCV, NumPy,
  imagehash/PIL, Annoy) and a YOLO detector. None of them is part of the repository, so
  every library call is a parameter of the model: the OpenCV functions are the fields of
  the record \<open>cv2\<close>, NumPy's \<open>argsort\<close> and the float32 cast are function arguments, and
  so on. The control flow, the constants and the data that app.py itself moves around
  are modelled as written. Floating-point numbers are idealised as reals; no theorem
  below depends on a rounded value, only on what is passed where.
\<close>

subsection \<open>Data\<close>

text \<open>A contour vertex as OpenCV returns it (int32 x, y), and a point after rescaling.\<close>

type_synonym point = "int \<times> int"
type_synonym contour = "point list"
type_synonym fpoint = "real \<times> real"

text \<open>A mask tensor of the detector, and a uint8 raster.\<close>

type_synonym mask = "nat list list"

text \<open>A decoded image: \<open>shape[0]\<close> is \<open>rows\<close>, \<open>shape[1]\<close> is \<open>cols\<close>.\<close>

record image =
  rows :: nat
  cols :: nat
  pixels :: "nat list"

type_synonym matrix = "real list list"

text \<open>
  Exceptions the program can run into. None is caught anywhere in app.py, so an error
  ends the function that meets it and every caller up to the request.
\<close>

datatype error = AttributeError | IndexError | ValueError | TypeError

record cv2 =
  morphologyEx :: "mask \<Rightarrow> mask \<Rightarrow> mask"
  findContours :: "mask \<Rightarrow> contour list"
  contourArea :: "contour \<Rightarrow> real"
  convexHull :: "contour \<Rightarrow> contour"
  arcLength :: "contour \<Rightarrow> real"
  approxPolyDP :: "contour \<Rightarrow> real \<Rightarrow> contour"
  imdecode :: "nat list \<Rightarrow> image option"
  cvtColor :: "image \<Rightarrow> image"
  resize :: "image \<Rightarrow> nat \<times> nat \<Rightarrow> image"
  getPerspectiveTransform :: "fpoint list \<Rightarrow> fpoint list \<Rightarrow> matrix"
  warpPerspective :: "image \<Rightarrow> matrix \<Rightarrow> nat \<times> nat \<Rightarrow> image"

subsection \<open>process_full_mask\<close>

text \<open>Python's \<open>max(xs, key=f)\<close> on a non-empty list: the first element of maximal key.\<close>

fun max_by :: "('a \<Rightarrow> real) \<Rightarrow> 'a \<Rightarrow> 'a list \<Rightarrow> 'a" where
  "max_by key best [] = best"
| "max_by key best (x # xs) = max_by key (if key best < key x then x else best) xs"

text \<open>\<open>np.linspace(start, stop, num)\<close>, over the reals.\<close>

definition linspace :: "real \<Rightarrow> real \<Rightarrow> nat \<Rightarrow> real list" where
  "linspace start stop num =
     map (\<lambda>i. start + real i * ((stop - start) / real (num - 1))) [0..<num]"

text \<open>
  The \<open>for epsilon_factor in ...\<close> loop of lines 41 to 45: \<open>approx\<close> is overwritten at
  every iteration and the loop is left at the first polygon of four vertices.
\<close>

fun epsilon_sweep :: "cv2 \<Rightarrow> contour \<Rightarrow> contour \<Rightarrow> real list \<Rightarrow> contour" where
  "epsilon_sweep C cvx_hull approx [] = approx"
| "epsilon_sweep C cvx_hull approx (epsilon_factor # rest) =
     (let epsilon = epsilon_factor * arcLength C cvx_hull;
          approx' = approxPolyDP C cvx_hull epsilon
      in if length approx' = 4 then approx' else epsilon_sweep C cvx_hull approx' rest)"

definition process_full_mask :: "cv2 \<Rightarrow> mask \<Rightarrow> contour option" where
  "process_full_mask C msk =
     (let kernel = replicate 5 (replicate 5 (1::nat));
          mask_closed = morphologyEx C msk kernel;
          contours = findContours C mask_closed
      in case contours of
           [] \<Rightarrow> None
         | c # cs \<Rightarrow>
             (let largest_contour = max_by (contourArea C) c cs;
                  cvx_hull = convexHull C largest_contour;
                  epsilon = 0.02 * arcLength C largest_contour;
                  approx = approxPolyDP C largest_contour epsilon;
                  approx = (if length approx \<noteq> 4
                            then epsilon_sweep C cvx_hull approx (linspace 0.01 0.1 10)
                            else approx)
              in if length approx \<noteq> 4 then None else Some approx))"

subsection \<open>sort_rectangle_points\<close>

text \<open>
  \<open>points[idx]\<close> with an index array. \<open>np.argsort\<close> is the parameter \<open>argsort\<close>; what
  NumPy promises of it is \<open>valid_argsort\<close>: the result is a permutation of the
  positions that puts the keys in ascending order. NumPy's default sort kind is not
  stable, so nothing is assumed about the order of equal keys.
\<close>

definition take_idx :: "'a list \<Rightarrow> nat list \<Rightarrow> 'a list" where
  "take_idx xs idx = map (\<lambda>i. xs ! i) idx"

definition valid_argsort :: "('k::linorder list \<Rightarrow> nat list) \<Rightarrow> bool" where
  "valid_argsort argsort =
     (\<forall>ks. mset (argsort ks) = mset [0..<length ks] \<and> sorted (map (\<lambda>i. ks ! i) (argsort ks)))"

definition sort_rectangle_points ::
  "('k::linorder list \<Rightarrow> nat list) \<Rightarrow> ('k \<times> 'k) list \<Rightarrow> ('k \<times> 'k) list" where
  "sort_rectangle_points argsort points =
     (let points = take_idx points (argsort (map snd points));
          top_points = take_idx (take 2 points) (argsort (map fst (take 2 points)));
          bottom_points = rev (take_idx (drop 2 points) (argsort (map fst (drop 2 points))));
          sorted_points = top_points @ bottom_points
      in sorted_points)"

subsection \<open>detect_edges_and_corners\<close>

definition target_size :: "nat \<times> nat" where
  "target_size = (640, 640)"

definition card_width :: nat where "card_width = 500"
definition card_height :: nat where "card_height = 700"

definition dst_points :: "fpoint list" where
  "dst_points = [(0, 0), (real card_width - 1, 0),
                 (real card_width - 1, real card_height - 1), (0, real card_height - 1)]"

text \<open>\<open>mask.cpu().numpy().astype(np.uint8) * 255\<close>, with the uint8 wrap-around.\<close>

definition mask_np :: "mask \<Rightarrow> mask" where
  "mask_np msk = map (map (\<lambda>v. ((v mod 256) * 255) mod 256)) msk"

text \<open>
  Lines 110 to 134, the body of \<open>if rectangle is not None\<close>, in two parts.
  \<open>ordered_rect_points\<close> rescales the polygon to the source resolution, casts to
  float32 and orders the points (lines 110 to 128); \<open>warp_card\<close> computes the transform
  and warps (lines 130 to 134). Nothing stands between the two: the ordered points go to
  \<open>cv2.getPerspectiveTransform\<close> unexamined. The drawing on \<open>result_output\<close>
  (line 108) changes an array that is never read again and is left out.
\<close>

definition ordered_rect_points ::
  "(real list \<Rightarrow> nat list) \<Rightarrow> (real \<Rightarrow> real) \<Rightarrow> image \<Rightarrow> contour \<Rightarrow> fpoint list" where
  "ordered_rect_points argsort float32 img rectangle =
     (let scale_x = real (cols img) / real (fst target_size);
          scale_y = real (rows img) / real (snd target_size);
          rectangle_original =
            map (\<lambda>(x, y). (real_of_int x * scale_x, real_of_int y * scale_y)) rectangle;
          rect_points = map (\<lambda>(x, y). (float32 x, float32 y)) rectangle_original
      in sort_rectangle_points argsort rect_points)"

definition warp_card ::
  "cv2 \<Rightarrow> (real list \<Rightarrow> nat list) \<Rightarrow> (real \<Rightarrow> real) \<Rightarrow> image \<Rightarrow> image \<Rightarrow> contour \<Rightarrow> image" where
  "warp_card C argsort float32 img img_rgb rectangle =
     (let rect_points = ordered_rect_points argsort float32 img rectangle;
          M = getPerspectiveTransform C rect_points dst_points
      in warpPerspective C img_rgb M (card_width, card_height))"

text \<open>The loop of lines 97 to 136 over the masks it is given; \<open>detected_cards\<close> is the accumulator.\<close>

fun process_masks ::
  "cv2 \<Rightarrow> (real list \<Rightarrow> nat list) \<Rightarrow> (real \<Rightarrow> real) \<Rightarrow> image \<Rightarrow> image \<Rightarrow> mask list \<Rightarrow>
   image list \<Rightarrow> image list" where
  "process_masks C argsort float32 img img_rgb [] detected_cards = detected_cards"
| "process_masks C argsort float32 img img_rgb (msk # rest) detected_cards =
     (case process_full_mask C (mask_np msk) of
        None \<Rightarrow> process_masks C argsort float32 img img_rgb rest detected_cards
      | Some rectangle \<Rightarrow>
          process_masks C argsort float32 img img_rgb rest
            (detected_cards @ [warp_card C argsort float32 img img_rgb rectangle]))"

text \<open>
  \<open>predict\<close> stands for \<open>model.predict(...)[0].masks\<close> on the downscaled image: \<open>None\<close>
  when the detector finds nothing, and otherwise the masks, whose \<open>data\<close> line 89 reads.
  On \<open>None\<close> that line raises \<open>AttributeError\<close>. The function returns \<open>None\<close> when the
  upload does not decode.
\<close>

definition detect_edges_and_corners ::
  "cv2 \<Rightarrow> (real list \<Rightarrow> nat list) \<Rightarrow> (real \<Rightarrow> real) \<Rightarrow> (image \<Rightarrow> mask list option) \<Rightarrow>
   nat list \<Rightarrow> error + image list option" where
  "detect_edges_and_corners C argsort float32 predict image_bytes =
     (case imdecode C image_bytes of
        None \<Rightarrow> Inr None
      | Some img \<Rightarrow>
          (let img_rgb = cvtColor C img;
               img_downscaled = resize C img_rgb target_size
           in case predict img_downscaled of
                None \<Rightarrow> Inl AttributeError
              | Some masks \<Rightarrow>
                  Inr (Some (process_masks C argsort float32 img img_rgb (take 10 masks) []))))"

subsection \<open>compute_robust_hash\<close>

text \<open>
  A PIL image with its mode, and the two kinds of object that app.py hands to
  \<open>compute_robust_hash\<close>: a PIL image (line 235) and an \<open>ImageHash\<close> (line 204), whose
  \<open>hash\<close> attribute is a square array of booleans.
\<close>

record pil_image =
  pmode :: string
  pdata :: image

datatype pyobj = PILImage pil_image | ImageHash "bool list list"

record pil =
  fromarray :: "image \<Rightarrow> pil_image"
  convert :: "pil_image \<Rightarrow> string \<Rightarrow> pil_image"

text \<open>
  The imagehash library. The three hash functions take the object and \<open>hash_size\<close>;
  what they do with an object that is not a PIL image is left to the parameter, an
  exception included. \<open>hex_to_hash\<close> may reject its string.
\<close>

record imagehash =
  phash :: "pyobj \<Rightarrow> nat \<Rightarrow> error + bool list list"
  average_hash :: "pyobj \<Rightarrow> nat \<Rightarrow> error + bool list list"
  dhash :: "pyobj \<Rightarrow> nat \<Rightarrow> error + bool list list"
  hex_to_hash :: "string \<Rightarrow> error + bool list list"

text \<open>\<open>np.array([float(i) for i in h.hash.flatten()], dtype=np.float32)\<close>.\<close>

definition hash_vec :: "bool list list \<Rightarrow> real list" where
  "hash_vec h = map (\<lambda>i. if i then 1 else 0) (concat h)"

definition compute_robust_hash ::
  "imagehash \<Rightarrow> pyobj \<Rightarrow> error + (real list \<times> real list \<times> real list)" where
  "compute_robust_hash IH img =
     (case phash IH img 32 of
        Inl e \<Rightarrow> Inl e
      | Inr ph \<Rightarrow>
          (case average_hash IH img 32 of
             Inl e \<Rightarrow> Inl e
           | Inr ah \<Rightarrow>
               (case dhash IH img 32 of
                  Inl e \<Rightarrow> Inl e
                | Inr dh \<Rightarrow> Inr (hash_vec ph, hash_vec ah, hash_vec dh))))"

subsection \<open>build_annoy_index\<close>

text \<open>
  The reference database as \<open>json.load\<close> returns it: card identifiers with their three
  hex strings, in insertion order.
\<close>

record stored_hashes =
  phash_hex :: string
  ahash_hex :: string
  dhash_hex :: string

type_synonym hash_db = "(string \<times> stored_hashes) list"

text \<open>
  An Annoy index as data: its dimension, the items added with their ids, and the
  number of trees once built. \<open>add_item\<close> refuses a vector whose length is not the
  dimension. The search itself is a parameter of \<open>find_matching_card\<close>. Saving and
  loading are the identity: the index built is the index loaded.
\<close>

record annoy_index =
  vec_dim :: nat
  items :: "(nat \<times> real list) list"
  n_trees :: nat

definition AnnoyIndex :: "nat \<Rightarrow> annoy_index" where
  "AnnoyIndex n = \<lparr>vec_dim = n, items = [], n_trees = 0\<rparr>"

definition add_item :: "annoy_index \<Rightarrow> nat \<Rightarrow> real list \<Rightarrow> error + annoy_index" where
  "add_item index i v =
     (if length v \<noteq> vec_dim index then Inl IndexError
      else Inr (index\<lparr>items := items index @ [(i, v)]\<rparr>))"

definition build :: "annoy_index \<Rightarrow> nat \<Rightarrow> annoy_index" where
  "build index n = index\<lparr>n_trees := n\<rparr>"

text \<open>
  Lines 198 to 207, the embedding of one entry. All three hex strings are decoded, and
  \<open>compute_robust_hash\<close> is then called on the decoded phash alone.
\<close>

definition entry_embedding :: "imagehash \<Rightarrow> stored_hashes \<Rightarrow> error + real list" where
  "entry_embedding IH stored =
     (case hex_to_hash IH (phash_hex stored) of
        Inl e \<Rightarrow> Inl e
      | Inr stored_phash \<Rightarrow>
          (case hex_to_hash IH (ahash_hex stored) of
             Inl e \<Rightarrow> Inl e
           | Inr stored_ahash \<Rightarrow>
               (case hex_to_hash IH (dhash_hex stored) of
                  Inl e \<Rightarrow> Inl e
                | Inr stored_dhash \<Rightarrow>
                    (case compute_robust_hash IH (ImageHash stored_phash) of
                       Inl e \<Rightarrow> Inl e
                     | Inr (phash_embedding, ahash_embedding, dhash_embedding) \<Rightarrow>
                         Inr (phash_embedding @ ahash_embedding @ dhash_embedding)))))"

text \<open>The loop of lines 197 to 211, from position \<open>i\<close> on.\<close>

fun add_entries ::
  "imagehash \<Rightarrow> nat \<Rightarrow> hash_db \<Rightarrow> annoy_index \<Rightarrow> string list \<Rightarrow>
   error + (annoy_index \<times> string list)" where
  "add_entries IH i [] index card_ids = Inr (index, card_ids)"
| "add_entries IH i ((card_id, stored) # rest) index card_ids =
     (case entry_embedding IH stored of
        Inl e \<Rightarrow> Inl e
      | Inr embedding \<Rightarrow>
          (case add_item index i embedding of
             Inl e \<Rightarrow> Inl e
           | Inr index' \<Rightarrow> add_entries IH (Suc i) rest index' (card_ids @ [card_id])))"

definition build_annoy_index :: "imagehash \<Rightarrow> hash_db \<Rightarrow> error + (annoy_index \<times> string list)" where
  "build_annoy_index IH db =
     (case add_entries IH 0 db (AnnoyIndex 3072) [] of
        Inl e \<Rightarrow> Inl e
      | Inr (index, card_ids) \<Rightarrow> Inr (build index 10, card_ids))"

subsection \<open>find_matching_card\<close>

text \<open>Lines 229 to 232: the detected image as an RGB PIL image.\<close>

definition detected_pil :: "pil \<Rightarrow> image \<Rightarrow> pil_image" where
  "detected_pil P detected_image =
     (let detected_pil = fromarray P detected_image;
          detected_pil = (if pmode detected_pil = ''P'' then convert P detected_pil ''RGBA''
                          else detected_pil)
      in convert P detected_pil ''RGB'')"

text \<open>Lines 235 to 238: the embedding of the detected image.\<close>

definition detected_embedding :: "pil \<Rightarrow> imagehash \<Rightarrow> image \<Rightarrow> error + real list" where
  "detected_embedding P IH detected_image =
     (case compute_robust_hash IH (PILImage (detected_pil P detected_image)) of
        Inl e \<Rightarrow> Inl e
      | Inr (detected_phash, detected_ahash, detected_dhash) \<Rightarrow>
          Inr (detected_phash @ detected_ahash @ detected_dhash))"

text \<open>
  \<open>index.get_nns_by_vector(v, n, include_distances=True)\<close> is the parameter \<open>nns\<close>: it
  returns the positions found and their distances. Like \<open>add_item\<close>, Annoy refuses a
  query vector of the wrong length.
\<close>

type_synonym nns_search = "annoy_index \<Rightarrow> real list \<Rightarrow> nat \<Rightarrow> nat list \<times> real list"

definition get_nns_by_vector ::
  "nns_search \<Rightarrow> annoy_index \<Rightarrow> real list \<Rightarrow> nat \<Rightarrow> error + (nat list \<times> real list)" where
  "get_nns_by_vector nns index v n =
     (if length v \<noteq> vec_dim index then Inl IndexError else Inr (nns index v n))"

text \<open>Python's \<open>xs[i]\<close> for a position \<open>i\<close> that is not negative.\<close>

definition item :: "'a list \<Rightarrow> nat \<Rightarrow> error + 'a" where
  "item xs i = (if i < length xs then Inr (xs ! i) else Inl IndexError)"

text \<open>The line printed on line 255.\<close>

datatype printed = ClosestMatch string real

text \<open>
  The result is the line printed and the value returned. \<open>index\<close> is the index read
  from \<open>annoy_index_path\<close> and \<open>db\<close> the database read from \<open>hash_db_path\<close>.
\<close>

definition find_matching_card ::
  "pil \<Rightarrow> imagehash \<Rightarrow> nns_search \<Rightarrow> image \<Rightarrow> hash_db \<Rightarrow> annoy_index \<Rightarrow>
   error + (printed \<times> string)" where
  "find_matching_card P IH nns detected_image db index =
     (case detected_embedding P IH detected_image of
        Inl e \<Rightarrow> Inl e
      | Inr embedding \<Rightarrow>
          (case get_nns_by_vector nns index embedding 5 of
             Inl e \<Rightarrow> Inl e
           | Inr nearest_neighbors \<Rightarrow>
               (case item (fst nearest_neighbors) 0 of
                  Inl e \<Rightarrow> Inl e
                | Inr best_match_index \<Rightarrow>
                    (case item (map fst db) best_match_index of
                       Inl e \<Rightarrow> Inl e
                     | Inr best_match_card_id \<Rightarrow>
                         (case item (snd nearest_neighbors) 0 of
                            Inl e \<Rightarrow> Inl e
                          | Inr distance \<Rightarrow>
                              Inr (ClosestMatch best_match_card_id distance,
                                   best_match_card_id))))))"

text \<open>The value returned, without the line printed.\<close>

definition return_value :: "error + (printed \<times> 'a) \<Rightarrow> error + 'a" where
  "return_value r = map_sum id snd r"

subsection \<open>upload_image\<close>

record upload =
  filename :: string
  stream :: "nat list"

text \<open>A rejected request with its message and status, or the list of matches.\<close>

datatype response = Rejected string nat | Cards "(nat \<times> string) list"

text \<open>The loop of lines 277 to 279, from position \<open>i\<close> on.\<close>

fun match_cards ::
  "pil \<Rightarrow> imagehash \<Rightarrow> nns_search \<Rightarrow> hash_db \<Rightarrow> annoy_index \<Rightarrow> nat \<Rightarrow> image list \<Rightarrow>
   (nat \<times> string) list \<Rightarrow> error + (nat \<times> string) list" where
  "match_cards P IH nns db index i [] matches = Inr matches"
| "match_cards P IH nns db index i (card_image # rest) matches =
     (case find_matching_card P IH nns card_image db index of
        Inl e \<Rightarrow> Inl e
      | Inr (line, match_id) \<Rightarrow>
          match_cards P IH nns db index (Suc i) rest (matches @ [(i, match_id)]))"

text \<open>
  The request carries a file under \<open>'image'\<close> or none. An exception of
  \<open>detect_edges_and_corners\<close> ends the request. When the upload does not decode,
  \<open>detect_edges_and_corners\<close> returns \<open>None\<close> and \<open>enumerate(None)\<close> raises.
\<close>

definition upload_image ::
  "cv2 \<Rightarrow> (real list \<Rightarrow> nat list) \<Rightarrow> (real \<Rightarrow> real) \<Rightarrow> (image \<Rightarrow> mask list option) \<Rightarrow>
   pil \<Rightarrow> imagehash \<Rightarrow> nns_search \<Rightarrow> hash_db \<Rightarrow> annoy_index \<Rightarrow> upload option \<Rightarrow>
   error + response" where
  "upload_image C argsort float32 predict P IH nns db index request_image =
     (case request_image of
        None \<Rightarrow> Inr (Rejected ''No file part'' 400)
      | Some file \<Rightarrow>
          if filename file = [] then Inr (Rejected ''No selected file'' 400)
          else (case detect_edges_and_corners C argsort float32 predict (stream file) of
                  Inl e \<Rightarrow> Inl e
                | Inr None \<Rightarrow> Inl TypeError
                | Inr (Some detected_cards) \<Rightarrow>
                    (case match_cards P IH nns db index 0 detected_cards [] of
                       Inl e \<Rightarrow> Inl e
                     | Inr matches \<Rightarrow> Inr (Cards matches))))"

subsection \<open>Predicates used to state the properties\<close>

text \<open>
  The y-sort of \<open>sort_rectangle_points\<close> separates a top pair from a bottom pair
  when the second and the third smallest y differ.
\<close>

definition top_bottom_separated :: "('k::linorder \<times> 'k) list \<Rightarrow> bool" where
  "top_bottom_separated points = (let ys = sort (map snd points) in ys ! 1 < ys ! 2)"

text \<open>Points on one line: every triple has a zero cross product.\<close>

definition cross :: "fpoint \<Rightarrow> fpoint \<Rightarrow> fpoint \<Rightarrow> real" where
  "cross a b c = (fst b - fst a) * (snd c - snd a) - (snd b - snd a) * (fst c - fst a)"

definition collinear_points :: "fpoint list \<Rightarrow> bool" where
  "collinear_points ps = list_all (\<lambda>a. list_all (\<lambda>b. list_all (\<lambda>c. cross a b c = 0) ps) ps) ps"

text \<open>
  What the fingerprint property asks of a hash function: the hash of a PIL image at
  size n is n rows of n bits.
\<close>

definition square_hash :: "(pyobj \<Rightarrow> nat \<Rightarrow> error + bool list list) \<Rightarrow> bool" where
  "square_hash hash_fn =
     (\<forall>img n h. hash_fn (PILImage img) n = Inr h \<longrightarrow>
        length h = n \<and> (\<forall>row \<in> set h. length row = n))"

text \<open>
  A hash function that refuses an \<open>ImageHash\<close> object, as one that calls the methods of
  a PIL image on its argument does.
\<close>

definition refuses_ImageHash :: "(pyobj \<Rightarrow> nat \<Rightarrow> error + bool list list) \<Rightarrow> bool" where
  "refuses_ImageHash hash_fn = (\<forall>h n. \<exists>e. hash_fn (ImageHash h) n = Inl e)"

subsection \<open>Concrete instances of the library parameters\<close>

text \<open>
  Small instances on which the model runs. \<open>stable_argsort\<close> is an argsort that keeps
  equal keys in their input order (what an insertion sort does). \<open>toy_cv2\<close> reads a
  contour straight off the rows of the mask and approximates a contour by itself, so a
  mask of four rows gives a quadrilateral and any other mask gives none.
\<close>

definition stable_argsort :: "'k::linorder list \<Rightarrow> nat list" where
  "stable_argsort ks = map snd (sort_key fst (zip ks [0..<length ks]))"

definition toy_cv2 :: cv2 where
  "toy_cv2 =
     \<lparr> morphologyEx = (\<lambda>m kernel. m),
       findContours = (\<lambda>m. if m = [] then []
                            else [map (\<lambda>r. case r of x # y # _ \<Rightarrow> (int x, int y) | _ \<Rightarrow> (0, 0)) m]),
       contourArea = (\<lambda>c. real (length c)),
       convexHull = (\<lambda>c. c),
       arcLength = (\<lambda>c. real (length c)),
       approxPolyDP = (\<lambda>c eps. c),
       imdecode = (\<lambda>bs. if bs = [] then None else Some \<lparr>rows = 1280, cols = 640, pixels = bs\<rparr>),
       cvtColor = (\<lambda>img. img),
       resize = (\<lambda>img (w, h). \<lparr>rows = h, cols = w, pixels = pixels img\<rparr>),
       getPerspectiveTransform = (\<lambda>src dst. [[1, 0, 0], [0, 1, 0], [0, 0, 1]]),
       warpPerspective = (\<lambda>img M (w, h). \<lparr>rows = h, cols = w, pixels = []\<rparr>) \<rparr>"

text \<open>Three masks: a square, a triangle, and four points on the diagonal.\<close>

definition square_mask :: mask where
  "square_mask = [[0, 0], [1, 0], [1, 1], [0, 1]]"

definition triangle_mask :: mask where
  "triangle_mask = [[0, 0], [1, 0], [1, 1]]"

definition diagonal_mask :: mask where
  "diagonal_mask = [[0, 0], [1, 1], [2, 2], [3, 3]]"

definition toy_image :: image where
  "toy_image = \<lparr>rows = 1280, cols = 640, pixels = [7]\<rparr>"

text \<open>
  \<open>toy_pil\<close> keeps the pixels and records the mode. \<open>toy_imagehash\<close> hashes a PIL image
  to a constant square of bits read off its pixels, a different bit for each of the three
  hashes, and hashes an \<open>ImageHash\<close> object to its own bits; \<open>strict_imagehash\<close> differs
  only in refusing an \<open>ImageHash\<close> object, as a hash function that calls the methods of
  a PIL image does. The toy \<open>hex_to_hash\<close> decodes \<open>''f''\<close> to all ones and any
  other string to all zeros.
\<close>

definition toy_pil :: pil where
  "toy_pil = \<lparr> fromarray = (\<lambda>img. \<lparr>pmode = ''RGB'', pdata = img\<rparr>),
               convert = (\<lambda>p m. p\<lparr>pmode := m\<rparr>) \<rparr>"

definition toy_imagehash :: imagehash where
  "toy_imagehash =
     \<lparr> phash = (\<lambda>obj n. case obj of
                  ImageHash h \<Rightarrow> Inr h
                | PILImage p \<Rightarrow> Inr (replicate n (replicate n (pixels (pdata p) = [])))),
       average_hash = (\<lambda>obj n. case obj of
                  ImageHash h \<Rightarrow> Inr h
                | PILImage p \<Rightarrow> Inr (replicate n (replicate n (rows (pdata p) = 700)))),
       dhash = (\<lambda>obj n. case obj of
                  ImageHash h \<Rightarrow> Inr h
                | PILImage p \<Rightarrow> Inr (replicate n (replicate n (cols (pdata p) = 500)))),
       hex_to_hash = (\<lambda>s. Inr (replicate 32 (replicate 32 (s = ''f'')))) \<rparr>"

definition strict_imagehash :: imagehash where
  "strict_imagehash =
     \<lparr> phash = (\<lambda>obj n. case obj of
                  ImageHash h \<Rightarrow> Inl AttributeError
                | PILImage p \<Rightarrow> Inr (replicate n (replicate n (pixels (pdata p) = [])))),
       average_hash = (\<lambda>obj n. case obj of
                  ImageHash h \<Rightarrow> Inl AttributeError
                | PILImage p \<Rightarrow> Inr (replicate n (replicate n (rows (pdata p) = 700)))),
       dhash = (\<lambda>obj n. case obj of
                  ImageHash h \<Rightarrow> Inl AttributeError
                | PILImage p \<Rightarrow> Inr (replicate n (replicate n (cols (pdata p) = 500)))),
       hex_to_hash = (\<lambda>s. Inr (replicate 32 (replicate 32 (s = ''f'')))) \<rparr>"

text \<open>
  Searches. \<open>lookup_nns\<close> reports the stored items equal to the query, in insertion
  order, at distance 0. \<open>near_nns\<close> and \<open>far_nns\<close> report the same positions at
  different distances.
\<close>

definition lookup_nns :: nns_search where
  "lookup_nns index v n =
     (let found = take n (filter (\<lambda>(i, u). u = v) (items index))
      in (map fst found, map (\<lambda>_. 0) found))"

definition near_nns :: nns_search where
  "near_nns index v n = (take n [1, 0], take n [0, 3])"

definition far_nns :: nns_search where
  "far_nns index v n = (take n [1, 0], take n [2, 3])"

text \<open>A reference database of two cards.\<close>

definition two_cards :: hash_db where
  "two_cards = [(''a'', \<lparr>phash_hex = ''f'', ahash_hex = ''0'', dhash_hex = ''0''\<rparr>),
                (''b'', \<lparr>phash_hex = ''0'', ahash_hex = ''f'', dhash_hex = ''f''\<rparr>)]"

text \<open>An index of dimension 3072 over two vectors, all ones and all zeros.\<close>

definition two_cards_index :: annoy_index where
  "two_cards_index =
     \<lparr>vec_dim = 3072, items = [(0, replicate 3072 1), (1, replicate 3072 0)], n_trees = 10\<rparr>"

text \<open>A rectified card as \<open>toy_cv2\<close> warps it; under the toy hashes its embedding is all ones.\<close>

definition toy_card :: image where
  "toy_card = \<lparr>rows = 700, cols = 500, pixels = []\<rparr>"

text \<open>An image on which the three toy hashes differ: phash and dhash all zeros, ahash all ones.\<close>

definition striped_card :: image where
  "striped_card = \<lparr>rows = 700, cols = 640, pixels = [7]\<rparr>"

definition toy_upload :: upload where
  "toy_upload = \<lparr>filename = ''card.png'', stream = [1]\<rparr>"

section \<open>Properties\<close>

subsection \<open>Running the model on the concrete instances\<close>

lemma toy_cv2_simps:
  "morphologyEx toy_cv2 m k = m"
  "findContours toy_cv2 m = (if m = [] then []
      else [map (\<lambda>r. case r of x # y # _ \<Rightarrow> (int x, int y) | _ \<Rightarrow> (0, 0)) m])"
  "contourArea toy_cv2 c = real (length c)"
  "convexHull toy_cv2 c = c"
  "arcLength toy_cv2 c = real (length c)"
  "approxPolyDP toy_cv2 c eps = c"
  "imdecode toy_cv2 bs = (if bs = [] then None else Some \<lparr>rows = 1280, cols = 640, pixels = bs\<rparr>)"
  "cvtColor toy_cv2 img = img"
  "resize toy_cv2 img (w, h) = \<lparr>rows = h, cols = w, pixels = pixels img\<rparr>"
  "getPerspectiveTransform toy_cv2 src dst = [[1, 0, 0], [0, 1, 0], [0, 0, 1]]"
  "warpPerspective toy_cv2 img M (w, h) = \<lparr>rows = h, cols = w, pixels = []\<rparr>"
  by (simp_all add: toy_cv2_def)

lemma toy_epsilon_sweep:
  "epsilon_sweep toy_cv2 h c fs = (if fs = [] then c else h)"
  by (induction fs arbitrary: c) (auto simp: toy_cv2_simps Let_def)

lemma toy_square:
  "process_full_mask toy_cv2 (mask_np square_mask) = Some [(0, 0), (255, 0), (255, 255), (0, 255)]"
  by (simp add: process_full_mask_def toy_cv2_simps mask_np_def square_mask_def Let_def)

lemma toy_triangle: "process_full_mask toy_cv2 (mask_np triangle_mask) = None"
  by (simp add: process_full_mask_def toy_cv2_simps toy_epsilon_sweep mask_np_def
      triangle_mask_def Let_def)

lemma toy_diagonal:
  "process_full_mask toy_cv2 (mask_np diagonal_mask) =
     Some [(0, 0), (255, 255), (254, 254), (253, 253)]"
  by (simp add: process_full_mask_def toy_cv2_simps mask_np_def diagonal_mask_def Let_def)

lemma toy_warp_card:
  "warp_card toy_cv2 a f img rgb q = \<lparr>rows = 700, cols = 500, pixels = []\<rparr>"
  by (simp add: warp_card_def card_width_def card_height_def toy_cv2_simps)

subsection \<open>The mask loop\<close>

lemma process_full_mask_Some_length:
  "process_full_mask C m = Some q \<Longrightarrow> length q = 4"
  by (auto simp: process_full_mask_def Let_def split: list.splits if_splits)

lemma process_masks_acc:
  "process_masks C a f img rgb ms acc = acc @ process_masks C a f img rgb ms []"
proof (induction ms arbitrary: acc)
  case Nil
  show ?case by simp
next
  case (Cons m ms)
  show ?case
  proof (cases "process_full_mask C (mask_np m)")
    case None
    then show ?thesis using Cons.IH [of acc] by simp
  next
    case (Some q)
    then show ?thesis
      using Cons.IH [of "acc @ [warp_card C a f img rgb q]"]
        Cons.IH [of "[warp_card C a f img rgb q]"]
      by simp
  qed
qed

lemma process_masks_append:
  "process_masks C a f img rgb (xs @ ys) acc =
     process_masks C a f img rgb ys (process_masks C a f img rgb xs acc)"
  by (induction xs arbitrary: acc) (auto split: option.splits)

lemma process_masks_map_filter:
  "process_masks C a f img rgb ms [] =
     map (warp_card C a f img rgb) (List.map_filter (\<lambda>m. process_full_mask C (mask_np m)) ms)"
proof (induction ms)
  case Nil
  show ?case by (simp add: List.map_filter_simps)
next
  case (Cons m ms)
  show ?case
  proof (cases "process_full_mask C (mask_np m)")
    case None
    then show ?thesis using Cons.IH by (simp add: List.map_filter_simps)
  next
    case (Some q)
    then show ?thesis
      using Cons.IH process_masks_acc [of C a f img rgb ms "[warp_card C a f img rgb q]"]
      by (simp add: List.map_filter_simps)
  qed
qed

lemma length_map_filter_le: "length (List.map_filter g xs) \<le> length xs"
  by (induction xs) (auto simp: List.map_filter_simps split: option.splits)

lemma length_map_filter_eq:
  "length (List.map_filter g xs) = length (filter (\<lambda>x. g x \<noteq> None) xs)"
  by (induction xs) (auto simp: List.map_filter_simps split: option.splits)

text \<open>
  C3. Whatever the OpenCV functions return, \<open>process_full_mask\<close> yields either no
  polygon or a polygon of exactly four vertices; and a mask for which it yields none
  leaves the loop's result as if the mask were not in the list: the masks before and
  after it are processed as usual.
\<close>

theorem process_full_mask_four_or_none:
  "(process_full_mask C b = None \<or> (\<exists>q. process_full_mask C b = Some q \<and> length q = 4)) \<and>
   (process_full_mask C (mask_np m) = None \<longrightarrow>
      process_masks C a f img rgb (pre @ m # post) acc =
      process_masks C a f img rgb (pre @ post) acc)"
proof
  show "process_full_mask C b = None \<or> (\<exists>q. process_full_mask C b = Some q \<and> length q = 4)"
    by (cases "process_full_mask C b") (auto dest: process_full_mask_Some_length)
next
  show "process_full_mask C (mask_np m) = None \<longrightarrow>
      process_masks C a f img rgb (pre @ m # post) acc =
      process_masks C a f img rgb (pre @ post) acc"
    by (simp add: process_masks_append)
qed

theorem process_full_mask_four_or_none_witness:
  "process_full_mask toy_cv2 (mask_np triangle_mask) = None \<and>
   process_full_mask toy_cv2 (mask_np square_mask) = Some [(0, 0), (255, 0), (255, 255), (0, 255)] \<and>
   process_masks toy_cv2 stable_argsort (\<lambda>x. x) toy_image toy_image
     [square_mask, triangle_mask, square_mask] [] =
   process_masks toy_cv2 stable_argsort (\<lambda>x. x) toy_image toy_image
     [square_mask, square_mask] [] \<and>
   length (process_masks toy_cv2 stable_argsort (\<lambda>x. x) toy_image toy_image
             [square_mask, triangle_mask, square_mask] []) = 2"
  using process_full_mask_four_or_none [of toy_cv2 "mask_np square_mask" triangle_mask
      stable_argsort "\<lambda>x. x" toy_image toy_image "[square_mask]" "[square_mask]" "[]"]
  by (simp add: toy_triangle toy_square)

text \<open>
  C10. Only the first ten masks of the detector are processed: the result is the one
  obtained from the detector's output cut to ten masks, so nothing after the tenth
  mask can contribute, and the result never holds more than ten cards.
\<close>

theorem at_most_ten_masks_processed:
  "detect_edges_and_corners C a f predict image_bytes =
     detect_edges_and_corners C a f (\<lambda>i. map_option (take 10) (predict i)) image_bytes \<and>
   (\<forall>cards. detect_edges_and_corners C a f predict image_bytes = Inr (Some cards) \<longrightarrow>
      length cards \<le> 10)"
proof
  show "detect_edges_and_corners C a f predict image_bytes =
     detect_edges_and_corners C a f (\<lambda>i. map_option (take 10) (predict i)) image_bytes"
    by (simp add: detect_edges_and_corners_def Let_def split: option.splits)
next
  have "length (process_masks C a f img rgb (take 10 ms) []) \<le> 10" for img rgb ms
  proof -
    have "length (process_masks C a f img rgb (take 10 ms) []) \<le> length (take 10 ms)"
      unfolding process_masks_map_filter length_map by (rule length_map_filter_le)
    then show ?thesis by simp
  qed
  then show "\<forall>cards. detect_edges_and_corners C a f predict image_bytes = Inr (Some cards) \<longrightarrow>
      length cards \<le> 10"
    by (auto simp: detect_edges_and_corners_def Let_def split: option.splits)
qed

theorem at_most_ten_masks_processed_witness:
  "detect_edges_and_corners toy_cv2 stable_argsort (\<lambda>x. x)
     (\<lambda>i. Some (replicate 11 square_mask)) [1] =
     Inr (Some (replicate 10 \<lparr>rows = 700, cols = 500, pixels = []\<rparr>)) \<and>
   detect_edges_and_corners toy_cv2 stable_argsort (\<lambda>x. x)
     (\<lambda>i. map_option (take 10) (Some (replicate 11 square_mask))) [1] =
     Inr (Some (replicate 10 \<lparr>rows = 700, cols = 500, pixels = []\<rparr>))"
proof -
  have run: "detect_edges_and_corners toy_cv2 stable_argsort (\<lambda>x. x)
      (\<lambda>i. map_option (take 10) (Some (replicate 11 square_mask))) [1] =
      Inr (Some (replicate 10 \<lparr>rows = 700, cols = 500, pixels = []\<rparr>))"
    by (simp add: detect_edges_and_corners_def toy_cv2_simps process_masks_map_filter
        List.map_filter_def toy_square toy_warp_card Let_def)
  with at_most_ten_masks_processed [of toy_cv2 stable_argsort "\<lambda>x. x"
      "\<lambda>i. Some (replicate 11 square_mask)" "[1]"]
  show ?thesis by simp
qed

text \<open>
  C8. Provided \<open>cv2.warpPerspective\<close> returns an image of the size it is asked for,
  every card that \<open>detect_edges_and_corners\<close> returns is 500 wide and 700 high, whatever
  quadrilateral it was cut from: the size argument is the constant pair
  \<open>(card_width, card_height)\<close>.
\<close>

theorem canonical_card_is_500_by_700:
  assumes "\<forall>src M w h. cols (warpPerspective C src M (w, h)) = w \<and>
                        rows (warpPerspective C src M (w, h)) = h"
    and "detect_edges_and_corners C a f predict image_bytes = Inr (Some cards)"
    and "warped \<in> set cards"
  shows "cols warped = 500 \<and> rows warped = 700"
proof -
  from assms(2) obtain img masks where
    cards: "cards = process_masks C a f img (cvtColor C img) (take 10 masks) []"
    by (auto simp: detect_edges_and_corners_def Let_def split: option.splits)
  with assms(3) obtain q where "warped = warp_card C a f img (cvtColor C img) q"
    by (auto simp: process_masks_map_filter)
  with assms(1) show ?thesis
    by (simp add: warp_card_def Let_def card_width_def card_height_def)
qed

theorem canonical_card_is_500_by_700_witness:
  "(\<forall>src M w h. cols (warpPerspective toy_cv2 src M (w, h)) = w \<and>
                 rows (warpPerspective toy_cv2 src M (w, h)) = h) \<and>
   detect_edges_and_corners toy_cv2 stable_argsort (\<lambda>x. x) (\<lambda>i. Some [square_mask]) [1] =
     Inr (Some [\<lparr>rows = 700, cols = 500, pixels = []\<rparr>]) \<and>
   cols \<lparr>rows = 700, cols = 500, pixels = ([]::nat list)\<rparr> = 500 \<and>
   rows \<lparr>rows = 700, cols = 500, pixels = ([]::nat list)\<rparr> = 700"
proof -
  have contract: "\<forall>src M w h. cols (warpPerspective toy_cv2 src M (w, h)) = w \<and>
                 rows (warpPerspective toy_cv2 src M (w, h)) = h"
    by (simp add: toy_cv2_simps)
  have run: "detect_edges_and_corners toy_cv2 stable_argsort (\<lambda>x. x) (\<lambda>i. Some [square_mask]) [1] =
     Inr (Some [\<lparr>rows = 700, cols = 500, pixels = []\<rparr>])"
    by (simp add: detect_edges_and_corners_def toy_cv2_simps toy_square toy_warp_card Let_def)
  from canonical_card_is_500_by_700 [OF contract run, of "\<lparr>rows = 700, cols = 500, pixels = []\<rparr>"]
    contract run
  show ?thesis by simp
qed

text \<open>
  C2. As stated the claim fails: the program has no degeneracy check. With the concrete
  OpenCV instance, a mask whose polygon is four points of the diagonal gives ordered
  points that lie on one line, and a card image is produced for it all the same.
\<close>

theorem collinear_quadrilateral_is_warped:
  "process_full_mask toy_cv2 (mask_np diagonal_mask) =
     Some [(0, 0), (255, 255), (254, 254), (253, 253)] \<and>
   ordered_rect_points stable_argsort (\<lambda>x. x) \<lparr>rows = 1280, cols = 640, pixels = [1]\<rparr>
     [(0, 0), (255, 255), (254, 254), (253, 253)] =
     [(0, 0), (253, 506), (255, 510), (254, 508)] \<and>
   collinear_points [(0, 0), (253, 506), (255, 510), (254, 508)] \<and>
   detect_edges_and_corners toy_cv2 stable_argsort (\<lambda>x. x) (\<lambda>i. Some [diagonal_mask]) [1] =
     Inr (Some [\<lparr>rows = 700, cols = 500, pixels = []\<rparr>])"
proof -
  have "ordered_rect_points stable_argsort (\<lambda>x. x) \<lparr>rows = 1280, cols = 640, pixels = [1]\<rparr>
     [(0, 0), (255, 255), (254, 254), (253, 253)] =
     [(0, 0), (253, 506), (255, 510), (254, 508)]"
    by (simp add: ordered_rect_points_def target_size_def sort_rectangle_points_def
        stable_argsort_def take_idx_def)
  moreover have "collinear_points [(0, 0), (253, 506), (255, 510), (254, 508)]"
    by (simp add: collinear_points_def cross_def)
  moreover have "detect_edges_and_corners toy_cv2 stable_argsort (\<lambda>x. x)
      (\<lambda>i. Some [diagonal_mask]) [1] = Inr (Some [\<lparr>rows = 700, cols = 500, pixels = []\<rparr>])"
    by (simp add: detect_edges_and_corners_def toy_cv2_simps toy_diagonal toy_warp_card Let_def)
  ultimately show ?thesis using toy_diagonal by simp
qed

text \<open>
  C2, as amended. The rectification step cannot fail: every mask for which
  \<open>process_full_mask\<close> returns a polygon contributes exactly one card, the warp of the
  source image by whatever matrix \<open>cv2.getPerspectiveTransform\<close> returns for the ordered
  points, collinear or not. The number of cards is the number of masks with a polygon.
\<close>

theorem every_quadrilateral_is_warped:
  "length (process_masks C a f img rgb ms []) =
     length (filter (\<lambda>m. process_full_mask C (mask_np m) \<noteq> None) ms) \<and>
   (\<forall>q. process_full_mask C (mask_np m) = Some q \<longrightarrow>
      process_masks C a f img rgb [m] [] =
        [warpPerspective C rgb
           (getPerspectiveTransform C (ordered_rect_points a f img q) dst_points) (500, 700)])"
proof
  show "length (process_masks C a f img rgb ms []) =
     length (filter (\<lambda>m. process_full_mask C (mask_np m) \<noteq> None) ms)"
    unfolding process_masks_map_filter length_map by (rule length_map_filter_eq)
next
  show "\<forall>q. process_full_mask C (mask_np m) = Some q \<longrightarrow>
      process_masks C a f img rgb [m] [] =
        [warpPerspective C rgb
           (getPerspectiveTransform C (ordered_rect_points a f img q) dst_points) (500, 700)]"
    by (simp add: warp_card_def Let_def card_width_def card_height_def)
qed

theorem every_quadrilateral_is_warped_witness:
  "process_full_mask toy_cv2 (mask_np diagonal_mask) =
     Some [(0, 0), (255, 255), (254, 254), (253, 253)] \<and>
   length (process_masks toy_cv2 stable_argsort (\<lambda>x. x) toy_image toy_image
             [diagonal_mask, triangle_mask, square_mask] []) = 2 \<and>
   process_masks toy_cv2 stable_argsort (\<lambda>x. x) toy_image toy_image [diagonal_mask] [] =
     [\<lparr>rows = 700, cols = 500, pixels = []\<rparr>]"
  using every_quadrilateral_is_warped [of toy_cv2 stable_argsort "\<lambda>x. x" toy_image toy_image
      "[diagonal_mask, triangle_mask, square_mask]" diagonal_mask]
  by (simp add: toy_diagonal toy_triangle toy_square toy_cv2_simps)

subsection \<open>Ordering the four points\<close>

lemma valid_stable_argsort: "valid_argsort (stable_argsort :: 'k::linorder list \<Rightarrow> nat list)"
proof -
  have "mset (stable_argsort ks) = mset [0..<length ks] \<and>
        sorted (map (\<lambda>i. ks ! i) (stable_argsort ks))" for ks :: "'k list"
  proof
    have "map snd (zip ks [0..<length ks]) = [0..<length ks]" by (simp add: map_snd_zip)
    then have "mset [0..<length ks] = mset (map snd (zip ks [0..<length ks]))" by simp
    also have "\<dots> = mset (map snd (sort_key fst (zip ks [0..<length ks])))"
      by (simp only: mset_map mset_sort)
    finally show "mset (stable_argsort ks) = mset [0..<length ks]"
      by (simp only: stable_argsort_def)
  next
    let ?zs = "sort_key fst (zip ks [0..<length ks])"
    have "\<forall>z \<in> set ?zs. ks ! snd z = fst z"
      by (auto simp: set_zip)
    then have a: "map (\<lambda>z. ks ! snd z) ?zs = map fst ?zs" by simp
    have b: "sorted (map fst ?zs)" by (rule sorted_sort_key)
    have c: "map (\<lambda>i. ks ! i) (stable_argsort ks) = map (\<lambda>z. ks ! snd z) ?zs"
      by (simp add: stable_argsort_def comp_def)
    show "sorted (map (\<lambda>i. ks ! i) (stable_argsort ks))"
      unfolding c a by (rule b)
  qed
  then show ?thesis by (simp add: valid_argsort_def)
qed

lemma valid_argsort_set:
  assumes "valid_argsort f"
  shows "set (f ks) = {0..<length ks}"
proof -
  from assms have "mset (f ks) = mset [0..<length ks]" by (simp add: valid_argsort_def)
  then have "set (f ks) = set [0..<length ks]" by (rule mset_eq_setD)
  then show ?thesis by simp
qed

text \<open>Indexing with a valid argsort of the keys permutes the list and sorts it by key.\<close>

lemma take_idx_mset:
  assumes "valid_argsort f"
  shows "mset (take_idx xs (f (map k xs))) = mset xs"
proof -
  from assms have "mset (f (map k xs)) = mset [0..<length xs]"
    by (simp add: valid_argsort_def)
  then have "image_mset (\<lambda>i. xs ! i) (mset (f (map k xs))) =
             image_mset (\<lambda>i. xs ! i) (mset [0..<length xs])"
    by simp
  then have "mset (map (\<lambda>i. xs ! i) (f (map k xs))) = mset (map (\<lambda>i. xs ! i) [0..<length xs])"
    by simp
  then show ?thesis by (simp add: take_idx_def map_nth)
qed

lemma take_idx_sorted:
  assumes "valid_argsort f"
  shows "sorted (map k (take_idx xs (f (map k xs))))"
proof -
  have in_range: "\<forall>i \<in> set (f (map k xs)). i < length xs"
    using valid_argsort_set [OF assms, of "map k xs"] by simp
  have "map k (take_idx xs (f (map k xs))) = map (\<lambda>i. map k xs ! i) (f (map k xs))"
    using in_range by (simp add: take_idx_def)
  moreover from assms have "sorted (map (\<lambda>i. map k xs ! i) (f (map k xs)))"
    by (simp add: valid_argsort_def)
  ultimately show ?thesis by simp
qed

lemma take_idx_length:
  assumes "valid_argsort f"
  shows "length (take_idx xs (f (map k xs))) = length xs"
  using take_idx_mset [OF assms, of xs k] by (metis size_mset)

lemma mset_two:
  assumes "mset t = {#a, b#}"
  shows "t = [a, b] \<or> t = [b, a]"
proof -
  from assms have "length t = 2"
    by (metis size_mset size_add_mset size_empty numeral_2_eq_2)
  then obtain x y where t: "t = [x, y]"
    by (auto simp: length_Suc_conv numeral_eq_Suc)
  with assms have "{#x, y#} = {#a, b#}" by simp
  then have "(x = a \<and> y = b) \<or> (x = b \<and> y = a)"
    by (auto simp: add_eq_conv_diff)
  with t show ?thesis by auto
qed

text \<open>
  Two lists of the same two points, both ascending in y: the x-sort of either gives the
  same list, whatever the argsort does with equal keys.
\<close>

lemma pair_sort_unique:
  fixes t t' :: "('k::linorder \<times> 'k) list"
  assumes v: "valid_argsort f"
    and m: "mset t = mset t'" and l: "length t = 2"
    and s: "sorted (map snd t)" and s': "sorted (map snd t')"
  shows "take_idx t (f (map fst t)) = take_idx t' (f (map fst t'))"
proof -
  from l obtain a b where t: "t = [a, b]"
    by (auto simp: length_Suc_conv numeral_eq_Suc)
  with m have "mset t' = {#a, b#}" by simp
  then have "t' = [a, b] \<or> t' = [b, a]" by (rule mset_two)
  then show ?thesis
  proof
    assume "t' = [a, b]"
    with t show ?thesis by simp
  next
    assume t': "t' = [b, a]"
    show ?thesis
    proof (cases "a = b")
      case True
      with t t' show ?thesis by simp
    next
      case False
      from s t have "snd a \<le> snd b" by simp
      moreover from s' t' have "snd b \<le> snd a" by simp
      ultimately have "snd a = snd b" by simp
      with False have ne: "fst a \<noteq> fst b" by (simp add: prod_eq_iff)
      let ?r = "take_idx t (f (map fst t))" and ?r' = "take_idx t' (f (map fst t'))"
      have mr: "mset ?r = {#a, b#}" using take_idx_mset [OF v, of t fst] t by simp
      have mr': "mset ?r' = {#a, b#}" using take_idx_mset [OF v, of t' fst] t' by simp
      have sr: "sorted (map fst ?r)" by (rule take_idx_sorted [OF v])
      have sr': "sorted (map fst ?r')" by (rule take_idx_sorted [OF v])
      from mr have c: "?r = [a, b] \<or> ?r = [b, a]" by (rule mset_two)
      from mr' have c': "?r' = [a, b] \<or> ?r' = [b, a]" by (rule mset_two)
      show ?thesis
      proof (cases "fst a < fst b")
        case True
        from c sr True have "?r = [a, b]" by auto
        moreover from c' sr' True have "?r' = [a, b]" by auto
        ultimately show ?thesis by simp
      next
        case False
        with ne have lt: "fst b < fst a" by simp
        from c sr lt have "?r = [b, a]" by auto
        moreover from c' sr' lt have "?r' = [b, a]" by auto
        ultimately show ?thesis by simp
      qed
    qed
  qed
qed

lemma sort_snd_eq:
  fixes p1 ps :: "('k::linorder \<times> 'k) list"
  assumes "mset p1 = mset ps" "sorted (map snd p1)"
  shows "map snd p1 = sort (map snd ps)"
proof -
  from assms(1) have "mset (map snd p1) = mset (map snd ps)" by (metis mset_map)
  with assms(2) show ?thesis by (metis properties_for_sort)
qed

text \<open>With a gap between the second and the third y, the split at two is a split by value.\<close>

lemma split_by_threshold:
  fixes p1 ps :: "('k::linorder \<times> 'k) list"
  assumes m: "mset p1 = mset ps" and s: "sorted (map snd p1)" and l: "length ps = 4"
    and sep: "top_bottom_separated ps"
  shows "take 2 p1 = filter (\<lambda>p. snd p \<le> sort (map snd ps) ! 1) p1"
    and "drop 2 p1 = filter (\<lambda>p. \<not> snd p \<le> sort (map snd ps) ! 1) p1"
proof -
  from m l have "length p1 = 4" by (metis size_mset)
  then obtain a b c d where p1: "p1 = [a, b, c, d]"
    by (auto simp: length_Suc_conv numeral_eq_Suc)
  have ys: "sort (map snd ps) = [snd a, snd b, snd c, snd d]"
    using sort_snd_eq [OF m s] p1 by simp
  from sep ys have bc: "snd b < snd c" by (simp add: top_bottom_separated_def)
  from s p1 have ab: "snd a \<le> snd b" and cd: "snd c \<le> snd d" by simp_all
  from ab bc cd show "take 2 p1 = filter (\<lambda>p. snd p \<le> sort (map snd ps) ! 1) p1"
    by (auto simp: p1 ys)
  from ab bc cd show "drop 2 p1 = filter (\<lambda>p. \<not> snd p \<le> sort (map snd ps) ! 1) p1"
    by (auto simp: p1 ys)
qed

lemma sorted_rows_split:
  fixes ps qs :: "('k::linorder \<times> 'k) list"
  assumes v: "valid_argsort f" and l: "length ps = 4" and m: "mset qs = mset ps"
    and sep: "top_bottom_separated ps"
  defines "p1 \<equiv> take_idx ps (f (map snd ps))" and "q1 \<equiv> take_idx qs (f (map snd qs))"
  shows "mset (take 2 q1) = mset (take 2 p1)" and "mset (drop 2 q1) = mset (drop 2 p1)"
    and "length (take 2 q1) = 2" and "length (drop 2 q1) = 2"
    and "sorted (map snd (take 2 p1))" and "sorted (map snd (take 2 q1))"
    and "sorted (map snd (drop 2 p1))" and "sorted (map snd (drop 2 q1))"
proof -
  have mp: "mset p1 = mset ps" unfolding p1_def by (rule take_idx_mset [OF v])
  have mq: "mset q1 = mset ps" unfolding q1_def using take_idx_mset [OF v, of qs snd] m by simp
  have sp: "sorted (map snd p1)" unfolding p1_def by (rule take_idx_sorted [OF v])
  have sq: "sorted (map snd q1)" unfolding q1_def by (rule take_idx_sorted [OF v])
  let ?P = "\<lambda>p::'k \<times> 'k. snd p \<le> sort (map snd ps) ! 1"
  have "mset (take 2 q1) = filter_mset ?P (mset q1)"
    using split_by_threshold(1) [OF mq sq l sep] by (metis mset_filter)
  moreover have "mset (take 2 p1) = filter_mset ?P (mset p1)"
    using split_by_threshold(1) [OF mp sp l sep] by (metis mset_filter)
  ultimately show "mset (take 2 q1) = mset (take 2 p1)" using mp mq by simp
  have "mset (drop 2 q1) = filter_mset (\<lambda>p. \<not> ?P p) (mset q1)"
    using split_by_threshold(2) [OF mq sq l sep] by (metis mset_filter)
  moreover have "mset (drop 2 p1) = filter_mset (\<lambda>p. \<not> ?P p) (mset p1)"
    using split_by_threshold(2) [OF mp sp l sep] by (metis mset_filter)
  ultimately show "mset (drop 2 q1) = mset (drop 2 p1)" using mp mq by simp
  from mq l have "length q1 = 4" by (metis size_mset)
  then show "length (take 2 q1) = 2" and "length (drop 2 q1) = 2" by simp_all
  from sp show "sorted (map snd (take 2 p1))" by (simp add: take_map [symmetric] sorted_wrt_take)
  from sq show "sorted (map snd (take 2 q1))" by (simp add: take_map [symmetric] sorted_wrt_take)
  from sp show "sorted (map snd (drop 2 p1))" by (simp add: drop_map [symmetric] sorted_wrt_drop)
  from sq show "sorted (map snd (drop 2 q1))" by (simp add: drop_map [symmetric] sorted_wrt_drop)
qed

lemma top_pair_mset:
  fixes ps :: "('k::linorder \<times> 'k) list"
  assumes v: "valid_argsort f" and l: "length ps = 4"
  shows "mset (take 2 (sort_rectangle_points f ps)) = mset (take 2 (take_idx ps (f (map snd ps))))"
proof -
  let ?p1 = "take_idx ps (f (map snd ps))"
  let ?tp = "take_idx (take 2 ?p1) (f (map fst (take 2 ?p1)))"
  have "length ?p1 = 4" using take_idx_length [OF v, of ps snd] l by simp
  then have "length ?tp = 2" using take_idx_length [OF v, of "take 2 ?p1" fst] by simp
  then have "take 2 (sort_rectangle_points f ps) = ?tp"
    by (simp add: sort_rectangle_points_def Let_def)
  moreover have "mset ?tp = mset (take 2 ?p1)" by (rule take_idx_mset [OF v])
  ultimately show ?thesis by simp
qed

text \<open>The keys 0, 1, 1, 2 have two valid argsorts, one for each order of the tied pair.\<close>

lemma key_not_first: "1 \<le> [0, 1, 1, 2::real] ! i \<Longrightarrow> i \<noteq> 0"
proof
  assume "1 \<le> [0, 1, 1, 2::real] ! i" and "i = 0"
  then show False by simp
qed

lemma key_not_last: "[0, 1, 1, 2::real] ! i \<le> 1 \<Longrightarrow> i \<noteq> 3"
proof
  assume "[0, 1, 1, 2::real] ! i \<le> 1" and "i = 3"
  then show False by simp
qed

lemma upt_four: "[0..<4] = [0, 1, 2, 3::nat]"
  by (simp add: upt_conv_Cons)

lemma argsort_tied_middle:
  assumes v: "valid_argsort f"
  shows "f [0, 1, 1, 2::real] = [0, 1, 2, 3] \<or> f [0, 1, 1, 2::real] = [0, 2, 1, 3]"
proof -
  let ?ks = "[0, 1, 1, 2::real]"
  from v have vs: "mset (f ?ks) = mset [0..<length ?ks] \<and> sorted (map (\<lambda>i. ?ks ! i) (f ?ks))"
    unfolding valid_argsort_def by blast
  have len: "length ?ks = 4" by simp
  with vs have "mset (f ?ks) = mset [0..<4]" by (simp only:)
  then have m: "mset (f ?ks) = mset [0, 1, 2, 3]" by (simp only: upt_four)
  from vs have s: "sorted (map (\<lambda>i. ?ks ! i) (f ?ks))" by blast
  from m have "length (f ?ks) = length [0, 1, 2, 3::nat]" by (rule mset_eq_length)
  then have "length (f ?ks) = 4" by simp
  then obtain a b c d where p: "f ?ks = [a, b, c, d]"
    by (auto simp: length_Suc_conv numeral_eq_Suc)
  have "set (f ?ks) = {0..<length ?ks}" by (rule valid_argsort_set [OF v])
  with len have st: "set (f ?ks) = {0..<4}" by (simp only:)
  from m have "distinct (f ?ks) = distinct [0, 1, 2, 3::nat]" by (rule mset_eq_imp_distinct_iff)
  with p have dist: "a \<noteq> b" "a \<noteq> c" "a \<noteq> d" "b \<noteq> c" "b \<noteq> d" "c \<noteq> d" by auto
  have "a \<in> set (f ?ks)" "b \<in> set (f ?ks)" "c \<in> set (f ?ks)" "d \<in> set (f ?ks)"
    by (simp_all add: p)
  then have lt: "a < 4" "b < 4" "c < 4" "d < 4" by (simp_all add: st)
  have "0 \<in> set (f ?ks)" "3 \<in> set (f ?ks)" by (simp_all add: st)
  then have mem: "0 \<in> {a, b, c, d}" "3 \<in> {a, b, c, d}" by (simp_all add: p)
  from s p have o: "?ks ! a \<le> ?ks ! b" "?ks ! b \<le> ?ks ! c" "?ks ! c \<le> ?ks ! d" by simp_all
  have a0: "a = 0"
  proof (rule ccontr)
    assume "a \<noteq> 0"
    with lt(1) have "a = 1 \<or> a = 2 \<or> a = 3" by auto
    then have "?ks ! a \<ge> 1" by auto
    with o have "?ks ! b \<ge> 1" "?ks ! c \<ge> 1" "?ks ! d \<ge> 1" by simp_all
    then have "b \<noteq> 0" "c \<noteq> 0" "d \<noteq> 0" by (simp_all add: key_not_first)
    with \<open>a \<noteq> 0\<close> have "0 \<notin> {a, b, c, d}" by simp
    with mem show False by simp
  qed
  have d3: "d = 3"
  proof (rule ccontr)
    assume "d \<noteq> 3"
    with lt(4) have "d = 0 \<or> d = 1 \<or> d = 2" by auto
    then have "?ks ! d \<le> 1" by auto
    with o have "?ks ! c \<le> 1" "?ks ! b \<le> 1" "?ks ! a \<le> 1" by simp_all
    then have "c \<noteq> 3" "b \<noteq> 3" "a \<noteq> 3" by (simp_all add: key_not_last)
    with \<open>d \<noteq> 3\<close> have "3 \<notin> {a, b, c, d}" by simp
    with mem show False by simp
  qed
  from lt(2) dist(1) dist(5) a0 d3 have b: "b = 1 \<or> b = 2" by auto
  from lt(3) dist(2) dist(6) a0 d3 have c: "c = 1 \<or> c = 2" by auto
  from b c dist(4) have "(b = 1 \<and> c = 2) \<or> (b = 2 \<and> c = 1)" by auto
  with p a0 d3 show ?thesis by auto
qed

lemma two_list: "length t = 2 \<Longrightarrow> \<exists>a b. t = [a, b]"
  by (auto simp: length_Suc_conv numeral_eq_Suc)

text \<open>What the result is: top pair by ascending x, bottom pair by descending x.\<close>

lemma sort_rectangle_points_shape:
  fixes ps :: "('k::linorder \<times> 'k) list"
  assumes v: "valid_argsort f" and l: "length ps = 4" and sep: "top_bottom_separated ps"
  shows "\<exists>tl tr br bl.
           sort_rectangle_points f ps = [tl, tr, br, bl] \<and> mset [tl, tr, br, bl] = mset ps \<and>
           snd tl \<le> sort (map snd ps) ! 1 \<and> snd tr \<le> sort (map snd ps) ! 1 \<and>
           sort (map snd ps) ! 1 < snd br \<and> sort (map snd ps) ! 1 < snd bl \<and>
           fst tl \<le> fst tr \<and> fst bl \<le> fst br"
proof -
  let ?t = "sort (map snd ps) ! 1"
  let ?p1 = "take_idx ps (f (map snd ps))"
  let ?top = "take_idx (take 2 ?p1) (f (map fst (take 2 ?p1)))"
  let ?bot = "take_idx (drop 2 ?p1) (f (map fst (drop 2 ?p1)))"
  have mp: "mset ?p1 = mset ps" by (rule take_idx_mset [OF v])
  have sp: "sorted (map snd ?p1)" by (rule take_idx_sorted [OF v])
  have lp: "length ?p1 = 4" using take_idx_length [OF v, of ps snd] l by simp
  note th = split_by_threshold [OF mp sp l sep]
  have mt: "mset ?top = mset (take 2 ?p1)" by (rule take_idx_mset [OF v])
  have mb: "mset ?bot = mset (drop 2 ?p1)" by (rule take_idx_mset [OF v])
  have st: "sorted (map fst ?top)" by (rule take_idx_sorted [OF v])
  have sb: "sorted (map fst ?bot)" by (rule take_idx_sorted [OF v])
  have "length ?top = 2" using take_idx_length [OF v, of "take 2 ?p1" fst] lp by simp
  then obtain tl tr where top: "?top = [tl, tr]" using two_list by blast
  have "length ?bot = 2" using take_idx_length [OF v, of "drop 2 ?p1" fst] lp by simp
  then obtain bl br where bot: "?bot = [bl, br]" using two_list by blast
  have in_top: "\<forall>p \<in> set (take 2 ?p1). snd p \<le> ?t"
    by (subst th(1)) simp
  have in_bot: "\<forall>p \<in> set (drop 2 ?p1). \<not> snd p \<le> ?t"
    by (subst th(2)) simp
  have set_top: "set ?top = set (take 2 ?p1)" using mt by (rule mset_eq_setD)
  have "tl \<in> set ?top" "tr \<in> set ?top" by (simp_all add: top)
  then have "tl \<in> set (take 2 ?p1)" "tr \<in> set (take 2 ?p1)" by (simp_all only: set_top)
  with in_top have ytop: "snd tl \<le> ?t" "snd tr \<le> ?t" by blast+
  have set_bot: "set ?bot = set (drop 2 ?p1)" using mb by (rule mset_eq_setD)
  have "bl \<in> set ?bot" "br \<in> set ?bot" by (simp_all add: bot)
  then have "bl \<in> set (drop 2 ?p1)" "br \<in> set (drop 2 ?p1)" by (simp_all only: set_bot)
  with in_bot have "\<not> snd br \<le> ?t" "\<not> snd bl \<le> ?t" by blast+
  then have ybot: "?t < snd br" "?t < snd bl" by simp_all
  from st top have xt: "fst tl \<le> fst tr" by simp
  from sb bot have xb: "fst bl \<le> fst br" by simp
  have r: "sort_rectangle_points f ps = [tl, tr, br, bl]"
    using top bot by (simp add: sort_rectangle_points_def Let_def)
  have "mset [tl, tr] + mset [bl, br] = mset (take 2 ?p1) + mset (drop 2 ?p1)"
    using mt mb top bot by simp
  also have "\<dots> = mset (take 2 ?p1 @ drop 2 ?p1)" by (simp only: mset_append)
  also have "\<dots> = mset ps" using mp by (simp only: append_take_drop_id)
  finally have sum: "mset [tl, tr] + mset [bl, br] = mset ps" .
  have "mset [tl, tr, br, bl] = mset [tl, tr] + mset [bl, br]"
    by (simp add: add_mset_commute)
  with sum have "mset [tl, tr, br, bl] = mset ps" by (simp only:)
  with r ytop ybot xt xb show ?thesis by blast
qed

text \<open>
  C4. As stated the claim fails. The four distinct points (0,0), (3,1), (5,1), (4,2) have
  a tie between the second and the third y. The y-sort then puts (3,1) or (5,1) into the
  top pair according to where each stands in the input, so two orderings of the same
  points give different results: with the stable argsort the two results are as shown,
  and no valid argsort at all makes the two results equal.
\<close>

theorem sort_rectangle_points_order_dependent:
  "mset [(0, 0), (3, 1), (5, 1), (4, 2::real)] = mset [(0, 0), (5::real, 1), (3, 1), (4, 2)] \<and>
   distinct [(0, 0), (3, 1), (5, 1), (4::real, 2::real)] \<and>
   valid_argsort (stable_argsort :: real list \<Rightarrow> nat list) \<and>
   sort_rectangle_points stable_argsort [(0, 0), (3, 1), (5, 1), (4, 2::real)] =
     [(0, 0), (3, 1), (5, 1), (4, 2)] \<and>
   sort_rectangle_points stable_argsort [(0, 0), (5, 1), (3, 1), (4, 2::real)] =
     [(0, 0), (5, 1), (4, 2), (3, 1)] \<and>
   \<not> (\<exists>f. valid_argsort f \<and>
          sort_rectangle_points f [(0, 0), (3, 1), (5, 1), (4, 2::real)] =
          sort_rectangle_points f [(0, 0), (5, 1), (3, 1), (4, 2::real)])"
proof -
  let ?A = "[(0, 0), (3, 1), (5, 1), (4, 2)] :: (real \<times> real) list"
  let ?B = "[(0, 0), (5, 1), (3, 1), (4, 2)] :: (real \<times> real) list"
  have perm: "mset ?A = mset ?B" by simp
  have dist: "distinct ?A" by simp
  have ra: "sort_rectangle_points stable_argsort ?A = [(0, 0), (3, 1), (5, 1), (4, 2)]"
    by (simp add: sort_rectangle_points_def stable_argsort_def take_idx_def)
  have rb: "sort_rectangle_points stable_argsort ?B = [(0, 0), (5, 1), (4, 2), (3, 1)]"
    by (simp add: sort_rectangle_points_def stable_argsort_def take_idx_def)
  have none: "\<not> (\<exists>f. valid_argsort f \<and> sort_rectangle_points f ?A = sort_rectangle_points f ?B)"
  proof
    assume "\<exists>f. valid_argsort f \<and> sort_rectangle_points f ?A = sort_rectangle_points f ?B"
    then obtain f :: "real list \<Rightarrow> nat list" where v: "valid_argsort f"
      and e: "sort_rectangle_points f ?A = sort_rectangle_points f ?B"
      by blast
    have ka: "map snd ?A = [0, 1, 1, 2]" and kb: "map snd ?B = [0, 1, 1, 2]" by simp_all
    have "mset (take 2 (take_idx ?A (f (map snd ?A)))) =
          mset (take 2 (take_idx ?B (f (map snd ?B))))"
      using top_pair_mset [OF v, of ?A] top_pair_mset [OF v, of ?B] e by simp
    then have eq: "mset (take 2 (take_idx ?A (f [0, 1, 1, 2]))) =
                   mset (take 2 (take_idx ?B (f [0, 1, 1, 2])))"
      by (simp only: ka kb)
    from argsort_tied_middle [OF v] show False
    proof
      assume "f [0, 1, 1, 2] = [0, 1, 2, 3]"
      with eq show False by (simp add: take_idx_def)
    next
      assume "f [0, 1, 1, 2] = [0, 2, 1, 3]"
      with eq show False by (simp add: take_idx_def)
    qed
  qed
  from perm dist valid_stable_argsort ra rb none show ?thesis by blast
qed

text \<open>
  C4, as amended. For four points whose second and third smallest y differ, every
  ordering of the same points gives the same result, for any argsort that meets
  NumPy's contract, stable or not. The result is the one the algorithm defines: it holds
  the four points, first the two of smaller y (at most the second smallest y) by
  ascending x, then the two of larger y by descending x.
\<close>

theorem sort_rectangle_points_order_independent:
  fixes ps qs :: "('k::linorder \<times> 'k) list"
  assumes v: "valid_argsort f" and l: "length ps = 4" and m: "mset qs = mset ps"
    and sep: "top_bottom_separated ps"
  shows "sort_rectangle_points f qs = sort_rectangle_points f ps \<and>
         (\<exists>tl tr br bl.
            sort_rectangle_points f ps = [tl, tr, br, bl] \<and> mset [tl, tr, br, bl] = mset ps \<and>
            snd tl \<le> sort (map snd ps) ! 1 \<and> snd tr \<le> sort (map snd ps) ! 1 \<and>
            sort (map snd ps) ! 1 < snd br \<and> sort (map snd ps) ! 1 < snd bl \<and>
            fst tl \<le> fst tr \<and> fst bl \<le> fst br)"
proof
  let ?p1 = "take_idx ps (f (map snd ps))" and ?q1 = "take_idx qs (f (map snd qs))"
  note sp = sorted_rows_split [OF v l m sep]
  have top: "take_idx (take 2 ?q1) (f (map fst (take 2 ?q1))) =
             take_idx (take 2 ?p1) (f (map fst (take 2 ?p1)))"
    by (rule pair_sort_unique [OF v sp(1) sp(3) sp(6) sp(5)])
  have bot: "take_idx (drop 2 ?q1) (f (map fst (drop 2 ?q1))) =
             take_idx (drop 2 ?p1) (f (map fst (drop 2 ?p1)))"
    by (rule pair_sort_unique [OF v sp(2) sp(4) sp(8) sp(7)])
  show "sort_rectangle_points f qs = sort_rectangle_points f ps"
    unfolding sort_rectangle_points_def Let_def using top bot by simp
next
  show "\<exists>tl tr br bl.
            sort_rectangle_points f ps = [tl, tr, br, bl] \<and> mset [tl, tr, br, bl] = mset ps \<and>
            snd tl \<le> sort (map snd ps) ! 1 \<and> snd tr \<le> sort (map snd ps) ! 1 \<and>
            sort (map snd ps) ! 1 < snd br \<and> sort (map snd ps) ! 1 < snd bl \<and>
            fst tl \<le> fst tr \<and> fst bl \<le> fst br"
    by (rule sort_rectangle_points_shape [OF v l sep])
qed

theorem sort_rectangle_points_order_independent_witness:
  "valid_argsort (stable_argsort :: real list \<Rightarrow> nat list) \<and>
   length [(0, 0), (100::real, 0), (100, 140), (0, 140::real)] = 4 \<and>
   mset [(100, 140), (0, 0), (0, 140), (100, 0::real)] =
     mset [(0, 0), (100::real, 0), (100, 140), (0, 140)] \<and>
   top_bottom_separated [(0, 0), (100, 0), (100, 140), (0, 140::real)] \<and>
   sort_rectangle_points stable_argsort [(100, 140), (0, 0), (0, 140), (100, 0::real)] =
     sort_rectangle_points stable_argsort [(0, 0), (100, 0), (100, 140), (0, 140::real)] \<and>
   sort_rectangle_points stable_argsort [(0, 0), (100, 0), (100, 140), (0, 140::real)] =
     [(0, 0), (100, 0), (100, 140), (0, 140)]"
proof -
  let ?P = "[(0, 0), (100, 0), (100, 140), (0, 140)] :: (real \<times> real) list"
  let ?Q = "[(100, 140), (0, 0), (0, 140), (100, 0)] :: (real \<times> real) list"
  have l: "length ?P = 4" by simp
  have m: "mset ?Q = mset ?P" by simp
  have sep: "top_bottom_separated ?P" by (simp add: top_bottom_separated_def)
  have r: "sort_rectangle_points stable_argsort ?P = [(0, 0), (100, 0), (100, 140), (0, 140)]"
    by (simp add: sort_rectangle_points_def stable_argsort_def take_idx_def)
  from sort_rectangle_points_order_independent [OF valid_stable_argsort l m sep]
  have "sort_rectangle_points stable_argsort ?Q = sort_rectangle_points stable_argsort ?P"
    by blast
  with valid_stable_argsort l m sep r show ?thesis by blast
qed

subsection \<open>Running the matching model on the concrete instances\<close>

lemma toy_pil_simps:
  "fromarray toy_pil img = \<lparr>pmode = ''RGB'', pdata = img\<rparr>"
  "convert toy_pil p m = p\<lparr>pmode := m\<rparr>"
  by (simp_all add: toy_pil_def)

lemma toy_imagehash_simps:
  "phash toy_imagehash (ImageHash h) n = Inr h"
  "average_hash toy_imagehash (ImageHash h) n = Inr h"
  "dhash toy_imagehash (ImageHash h) n = Inr h"
  "phash toy_imagehash (PILImage p) n = Inr (replicate n (replicate n (pixels (pdata p) = [])))"
  "average_hash toy_imagehash (PILImage p) n = Inr (replicate n (replicate n (rows (pdata p) = 700)))"
  "dhash toy_imagehash (PILImage p) n = Inr (replicate n (replicate n (cols (pdata p) = 500)))"
  "hex_to_hash toy_imagehash s = Inr (replicate 32 (replicate 32 (s = ''f'')))"
  by (simp_all add: toy_imagehash_def)

lemma strict_imagehash_simps:
  "phash strict_imagehash (ImageHash h) n = Inl AttributeError"
  "hex_to_hash strict_imagehash s = Inr (replicate 32 (replicate 32 (s = ''f'')))"
  by (simp_all add: strict_imagehash_def)

lemma concat_replicate_replicate: "concat (replicate n (replicate m x)) = replicate (n * m) x"
  by (induction n) (simp_all add: replicate_add)

lemma hash_vec_replicate:
  "hash_vec (replicate n (replicate m b)) = replicate (n * m) (if b then 1 else 0)"
  by (simp add: hash_vec_def concat_replicate_replicate)

lemma replicate_thrice: "replicate 1024 x @ replicate 1024 x @ replicate 1024 x = replicate 3072 x"
  by (simp add: replicate_add [symmetric])

lemma toy_entry_embedding:
  "entry_embedding toy_imagehash \<lparr>phash_hex = p, ahash_hex = a, dhash_hex = d\<rparr> =
     Inr (replicate 3072 (if p = ''f'' then 1 else 0))"
  by (simp add: entry_embedding_def compute_robust_hash_def toy_imagehash_simps
      hash_vec_replicate replicate_thrice)

lemma strict_entry_embedding:
  "entry_embedding strict_imagehash \<lparr>phash_hex = p, ahash_hex = a, dhash_hex = d\<rparr> = Inl AttributeError"
  by (simp add: entry_embedding_def compute_robust_hash_def strict_imagehash_simps)

lemma toy_detected_pil:
  "detected_pil toy_pil img = \<lparr>pmode = ''RGB'', pdata = img\<rparr>"
  by (simp add: detected_pil_def toy_pil_simps Let_def)

lemma toy_detected_embedding:
  "detected_embedding toy_pil toy_imagehash toy_card = Inr (replicate 3072 1)"
  by (simp add: detected_embedding_def toy_detected_pil toy_imagehash_simps compute_robust_hash_def
      toy_card_def hash_vec_replicate replicate_thrice)

lemma toy_find_two:
  "find_matching_card toy_pil toy_imagehash lookup_nns toy_card two_cards two_cards_index =
     Inr (ClosestMatch ''a'' 0, ''a'')"
  by (simp add: find_matching_card_def toy_detected_embedding get_nns_by_vector_def
      lookup_nns_def two_cards_index_def two_cards_def item_def)

lemma toy_find_near:
  "find_matching_card toy_pil toy_imagehash near_nns toy_card two_cards two_cards_index =
     Inr (ClosestMatch ''b'' 0, ''b'')"
  by (simp add: find_matching_card_def toy_detected_embedding get_nns_by_vector_def
      near_nns_def two_cards_index_def two_cards_def item_def)

lemma toy_find_far:
  "find_matching_card toy_pil toy_imagehash far_nns toy_card two_cards two_cards_index =
     Inr (ClosestMatch ''b'' 2, ''b'')"
  by (simp add: find_matching_card_def toy_detected_embedding get_nns_by_vector_def
      far_nns_def two_cards_index_def two_cards_def item_def)

lemma toy_detect_square:
  "detect_edges_and_corners toy_cv2 stable_argsort (\<lambda>x. x) (\<lambda>i. Some [square_mask])
     (stream toy_upload) = Inr (Some [toy_card])"
  by (simp add: detect_edges_and_corners_def toy_cv2_simps toy_square toy_warp_card Let_def
      toy_upload_def toy_card_def)

lemma toy_detect_mixed:
  "detect_edges_and_corners toy_cv2 stable_argsort (\<lambda>x. x)
     (\<lambda>i. Some [triangle_mask, diagonal_mask]) (stream toy_upload) = Inr (Some [toy_card])"
  by (simp add: detect_edges_and_corners_def toy_cv2_simps toy_triangle toy_diagonal toy_warp_card
      Let_def toy_upload_def toy_card_def)

lemma toy_detect_three:
  "detect_edges_and_corners toy_cv2 stable_argsort (\<lambda>x. x)
     (\<lambda>i. Some [triangle_mask, diagonal_mask, square_mask]) (stream toy_upload) =
     Inr (Some [toy_card, toy_card])"
  by (simp add: detect_edges_and_corners_def toy_cv2_simps toy_triangle toy_diagonal toy_square
      toy_warp_card Let_def toy_upload_def toy_card_def)

lemma toy_detect_nothing:
  "detect_edges_and_corners toy_cv2 stable_argsort (\<lambda>x. x) (\<lambda>i. None) (stream toy_upload) =
     Inl AttributeError"
  by (simp add: detect_edges_and_corners_def toy_cv2_simps Let_def toy_upload_def)

lemma strict_build_fails: "build_annoy_index strict_imagehash two_cards = Inl AttributeError"
  by (simp add: build_annoy_index_def two_cards_def strict_entry_embedding)

subsection \<open>Fingerprints\<close>

lemma length_concat_square:
  "\<forall>row \<in> set h. length row = n \<Longrightarrow> length (concat h) = length h * n"
  by (induction h) simp_all

lemma square_hash_vec:
  assumes "square_hash hf" and "hf (PILImage img) 32 = Inr h"
  shows "length (hash_vec h) = 1024" and "set (hash_vec h) \<subseteq> {0, 1}"
proof -
  from assms have "length h = 32" and "\<forall>row \<in> set h. length row = 32"
    unfolding square_hash_def by blast+
  then have "length (concat h) = 32 * 32" using length_concat_square [of h 32] by simp
  then show "length (hash_vec h) = 1024" by (simp add: hash_vec_def)
  show "set (hash_vec h) \<subseteq> {0, 1}" by (auto simp: hash_vec_def)
qed

lemma toy_square_hash:
  "square_hash (phash toy_imagehash)" "square_hash (average_hash toy_imagehash)"
  "square_hash (dhash toy_imagehash)"
  by (auto simp: square_hash_def toy_imagehash_def split: pyobj.splits)

text \<open>
  C9. The fingerprint of a detected image is computed from the image alone: whenever
  the three library hashes of the image (as an RGB PIL image, at hash size 32) succeed,
  the embedding is the phash vector, then the ahash vector, then the dhash vector of
  that very image, and that vector is what \<open>find_matching_card\<close> hands to the search,
  whatever the database, the index and the search are. A second run on the same image
  gives the same vector. Provided each hash function returns 32 rows of 32 bits for a PIL
  image, each part has 1024 entries, the vector has 3072, and every entry is 0 or 1.
\<close>

theorem fingerprint_deterministic:
  assumes sq: "square_hash (phash IH)" "square_hash (average_hash IH)" "square_hash (dhash IH)"
    and ph: "phash IH (PILImage (detected_pil P image1)) 32 = Inr ph"
    and ah: "average_hash IH (PILImage (detected_pil P image1)) 32 = Inr ah"
    and dh: "dhash IH (PILImage (detected_pil P image1)) 32 = Inr dh"
    and same: "image2 = image1"
  shows "detected_embedding P IH image1 = Inr (hash_vec ph @ hash_vec ah @ hash_vec dh) \<and>
         detected_embedding P IH image2 = detected_embedding P IH image1 \<and>
         (\<forall>nns db index.
            find_matching_card P IH nns image1 db index =
            find_matching_card P IH (\<lambda>i v k. nns i (hash_vec ph @ hash_vec ah @ hash_vec dh) k)
              image1 db index) \<and>
         length (hash_vec ph) = 1024 \<and> length (hash_vec ah) = 1024 \<and>
         length (hash_vec dh) = 1024 \<and>
         length (hash_vec ph @ hash_vec ah @ hash_vec dh) = 3072 \<and>
         set (hash_vec ph @ hash_vec ah @ hash_vec dh) \<subseteq> {0, 1}"
proof -
  have e: "detected_embedding P IH image1 = Inr (hash_vec ph @ hash_vec ah @ hash_vec dh)"
    using ph ah dh by (simp add: detected_embedding_def compute_robust_hash_def)
  note p = square_hash_vec [OF sq(1) ph] and a = square_hash_vec [OF sq(2) ah]
    and d = square_hash_vec [OF sq(3) dh]
  have q: "\<forall>nns db index.
            find_matching_card P IH nns image1 db index =
            find_matching_card P IH (\<lambda>i v k. nns i (hash_vec ph @ hash_vec ah @ hash_vec dh) k)
              image1 db index"
    by (simp add: find_matching_card_def get_nns_by_vector_def e)
  have l: "length (hash_vec ph @ hash_vec ah @ hash_vec dh) = 3072" using p(1) a(1) d(1) by simp
  have b: "set (hash_vec ph @ hash_vec ah @ hash_vec dh) \<subseteq> {0, 1}"
    using p(2) a(2) d(2) by simp
  from e same q p(1) a(1) d(1) l b show ?thesis by blast
qed

theorem fingerprint_deterministic_witness:
  "square_hash (phash toy_imagehash) \<and> square_hash (average_hash toy_imagehash) \<and>
   square_hash (dhash toy_imagehash) \<and>
   phash toy_imagehash (PILImage (detected_pil toy_pil striped_card)) 32 =
     Inr (replicate 32 (replicate 32 False)) \<and>
   average_hash toy_imagehash (PILImage (detected_pil toy_pil striped_card)) 32 =
     Inr (replicate 32 (replicate 32 True)) \<and>
   dhash toy_imagehash (PILImage (detected_pil toy_pil striped_card)) 32 =
     Inr (replicate 32 (replicate 32 False)) \<and>
   detected_embedding toy_pil toy_imagehash striped_card =
     Inr (replicate 1024 0 @ replicate 1024 1 @ replicate 1024 0) \<and>
   length (replicate 1024 0 @ replicate 1024 1 @ replicate 1024 (0::real)) = 3072"
proof -
  have ph: "phash toy_imagehash (PILImage (detected_pil toy_pil striped_card)) 32 =
     Inr (replicate 32 (replicate 32 False))"
    by (simp add: toy_detected_pil toy_imagehash_simps striped_card_def)
  have ah: "average_hash toy_imagehash (PILImage (detected_pil toy_pil striped_card)) 32 =
     Inr (replicate 32 (replicate 32 True))"
    by (simp add: toy_detected_pil toy_imagehash_simps striped_card_def)
  have dh: "dhash toy_imagehash (PILImage (detected_pil toy_pil striped_card)) 32 =
     Inr (replicate 32 (replicate 32 False))"
    by (simp add: toy_detected_pil toy_imagehash_simps striped_card_def)
  from fingerprint_deterministic [OF toy_square_hash ph ah dh refl]
  have "detected_embedding toy_pil toy_imagehash striped_card =
      Inr (hash_vec (replicate 32 (replicate 32 False)) @ hash_vec (replicate 32 (replicate 32 True)) @
           hash_vec (replicate 32 (replicate 32 False)))"
    by blast
  then have "detected_embedding toy_pil toy_imagehash striped_card =
     Inr (replicate 1024 0 @ replicate 1024 1 @ replicate 1024 0)"
    by (simp add: hash_vec_replicate)
  with toy_square_hash ph ah dh show ?thesis by simp
qed

subsection \<open>Matching\<close>

text \<open>
  C5. As stated the claim fails: the distance is printed and not returned. Two searches
  that report the same nearest position at distances 0 and 2 give the same return value
  and the same response to the request.
\<close>

theorem distance_is_not_returned:
  "find_matching_card toy_pil toy_imagehash near_nns toy_card two_cards two_cards_index =
     Inr (ClosestMatch ''b'' 0, ''b'') \<and>
   find_matching_card toy_pil toy_imagehash far_nns toy_card two_cards two_cards_index =
     Inr (ClosestMatch ''b'' 2, ''b'') \<and>
   return_value (find_matching_card toy_pil toy_imagehash near_nns toy_card two_cards two_cards_index) =
   return_value (find_matching_card toy_pil toy_imagehash far_nns toy_card two_cards two_cards_index) \<and>
   upload_image toy_cv2 stable_argsort (\<lambda>x. x) (\<lambda>i. Some [square_mask]) toy_pil toy_imagehash near_nns
     two_cards two_cards_index (Some toy_upload) = Inr (Cards [(0, ''b'')]) \<and>
   upload_image toy_cv2 stable_argsort (\<lambda>x. x) (\<lambda>i. Some [square_mask]) toy_pil toy_imagehash far_nns
     two_cards two_cards_index (Some toy_upload) = Inr (Cards [(0, ''b'')])"
proof -
  have "filename toy_upload \<noteq> []" by (simp add: toy_upload_def)
  then show ?thesis
    by (simp add: toy_find_near toy_find_far return_value_def upload_image_def toy_detect_square)
qed

text \<open>
  C5, as amended. The index is asked for 5 neighbours, and the value returned is the card
  identifier at the first reported position of the database, alone. The distance of that
  neighbour goes to the printed line only, and the other candidates appear nowhere.
\<close>

theorem match_result_is_nearest_id:
  assumes "detected_embedding P IH img = Inr v" and "length v = vec_dim index"
    and "nns index v 5 = (i # js, d # ds)" and "i < length db"
  shows "return_value (find_matching_card P IH nns img db index) = Inr (fst (db ! i)) \<and>
         find_matching_card P IH nns img db index =
           Inr (ClosestMatch (fst (db ! i)) d, fst (db ! i))"
  using assms
  by (simp add: return_value_def find_matching_card_def get_nns_by_vector_def item_def)

theorem match_result_is_nearest_id_witness:
  "detected_embedding toy_pil toy_imagehash toy_card = Inr (replicate 3072 1) \<and>
   length (replicate 3072 (1::real)) = vec_dim two_cards_index \<and>
   near_nns two_cards_index (replicate 3072 1) 5 = ([1, 0], [0, 3]) \<and>
   1 < length two_cards \<and>
   return_value (find_matching_card toy_pil toy_imagehash near_nns toy_card two_cards
     two_cards_index) = Inr ''b'' \<and>
   find_matching_card toy_pil toy_imagehash near_nns toy_card two_cards two_cards_index =
     Inr (ClosestMatch ''b'' 0, ''b'')"
proof -
  have l: "length (replicate 3072 (1::real)) = vec_dim two_cards_index"
    by (simp add: two_cards_index_def)
  have n: "near_nns two_cards_index (replicate 3072 1) 5 = (1 # [0], 0 # [3])"
    by (simp add: near_nns_def)
  have i: "1 < length two_cards" by (simp add: two_cards_def)
  have b: "fst (two_cards ! 1) = ''b''" by (simp add: two_cards_def)
  from match_result_is_nearest_id [of toy_pil toy_imagehash toy_card "replicate 3072 1"
      two_cards_index near_nns 1 "[0]" 0 "[3]" two_cards]
    toy_detected_embedding l n i b
  show ?thesis by (simp add: return_value_def)
qed

subsection \<open>Building the index\<close>

text \<open>
  C1. The program does not do what the claim says. \<open>build_annoy_index\<close> decodes the
  three hex strings and then calls \<open>compute_robust_hash\<close>, which its docstring gives a
  PIL image, on the decoded phash; the decoded ahash and dhash are never used. So the
  vector inserted for an entry is the same whatever ahash and dhash are stored, as long
  as they decode. With a hash library that refuses an \<open>ImageHash\<close> object the build
  stops at the first entry (\<open>strict_build_fails\<close>).
\<close>

theorem stored_ahash_dhash_ignored:
  assumes "hex_to_hash IH a = Inr x" and "hex_to_hash IH a' = Inr x'"
    and "hex_to_hash IH d = Inr y" and "hex_to_hash IH d' = Inr y'"
  shows "entry_embedding IH \<lparr>phash_hex = p, ahash_hex = a, dhash_hex = d\<rparr> =
         entry_embedding IH \<lparr>phash_hex = p, ahash_hex = a', dhash_hex = d'\<rparr>"
  using assms by (simp add: entry_embedding_def split: sum.splits)

theorem stored_ahash_dhash_ignored_witness:
  "hex_to_hash toy_imagehash ''0'' = Inr (replicate 32 (replicate 32 False)) \<and>
   hex_to_hash toy_imagehash ''f'' = Inr (replicate 32 (replicate 32 True)) \<and>
   replicate 32 (replicate 32 False) \<noteq> replicate 32 (replicate 32 True) \<and>
   entry_embedding toy_imagehash \<lparr>phash_hex = ''f'', ahash_hex = ''0'', dhash_hex = ''0''\<rparr> =
   entry_embedding toy_imagehash \<lparr>phash_hex = ''f'', ahash_hex = ''f'', dhash_hex = ''f''\<rparr> \<and>
   entry_embedding toy_imagehash \<lparr>phash_hex = ''f'', ahash_hex = ''0'', dhash_hex = ''0''\<rparr> =
     Inr (replicate 3072 1)"
proof -
  have z: "hex_to_hash toy_imagehash ''0'' = Inr (replicate 32 (replicate 32 False))"
    by (simp add: toy_imagehash_simps)
  have o: "hex_to_hash toy_imagehash ''f'' = Inr (replicate 32 (replicate 32 True))"
    by (simp add: toy_imagehash_simps)
  from stored_ahash_dhash_ignored [OF z o z o, of "''f''"] z o
  show ?thesis by (simp add: toy_entry_embedding)
qed

text \<open>
  C6. The program does not do what the claim says, through the slip of C1: the loop
  of \<open>build_annoy_index\<close> hands the decoded phash, an \<open>ImageHash\<close> object, to the image
  hash functions. With a hash library that refuses such an object the first entry already
  ends the build with the error, so the build completes on the empty database only: for
  no database of N > 0 entries is there an id mapping of N entries or an index to query.
\<close>

theorem build_completes_only_on_empty_db:
  assumes "refuses_ImageHash (phash IH)" and "build_annoy_index IH db = Inr r"
  shows "db = [] \<and> r = (\<lparr>vec_dim = 3072, items = [], n_trees = 10\<rparr>, [])"
proof (cases db)
  case Nil
  with assms(2) show ?thesis
    by (auto simp: build_annoy_index_def AnnoyIndex_def build_def)
next
  case (Cons entry rest)
  obtain card_id stored where entry: "entry = (card_id, stored)" by (cases entry)
  have "\<exists>e. entry_embedding IH stored = Inl e"
  proof (cases "hex_to_hash IH (phash_hex stored)")
    case (Inl e)
    then show ?thesis by (simp add: entry_embedding_def)
  next
    case (Inr stored_phash)
    from assms(1) obtain e where "phash IH (ImageHash stored_phash) 32 = Inl e"
      unfolding refuses_ImageHash_def by blast
    with Inr show ?thesis
      by (auto simp: entry_embedding_def compute_robust_hash_def split: sum.splits)
  qed
  then obtain e where "entry_embedding IH stored = Inl e" by blast
  with Cons entry have "build_annoy_index IH db = Inl e"
    by (simp add: build_annoy_index_def)
  with assms(2) show ?thesis by simp
qed

theorem build_completes_only_on_empty_db_witness:
  "refuses_ImageHash (phash strict_imagehash) \<and>
   build_annoy_index strict_imagehash [] = Inr (\<lparr>vec_dim = 3072, items = [], n_trees = 10\<rparr>, []) \<and>
   build_annoy_index strict_imagehash two_cards = Inl AttributeError"
proof -
  have r: "refuses_ImageHash (phash strict_imagehash)"
    by (simp add: refuses_ImageHash_def strict_imagehash_simps)
  have b: "build_annoy_index strict_imagehash [] =
      Inr (\<lparr>vec_dim = 3072, items = [], n_trees = 10\<rparr>, [])"
    by (simp add: build_annoy_index_def AnnoyIndex_def build_def)
  from build_completes_only_on_empty_db [OF r b] r b strict_build_fails
  show ?thesis by simp
qed

subsection \<open>The request\<close>

lemma match_cards_map:
  assumes "\<forall>q \<in> set qs. find_matching_card P IH nns (w q) db index = Inr (line_of q, id_of q)"
  shows "match_cards P IH nns db index i (map w qs) acc =
           Inr (acc @ zip [i..<i + length qs] (map id_of qs))"
  using assms
proof (induction qs arbitrary: i acc)
  case Nil
  show ?case by simp
next
  case (Cons q qs)
  from Cons.prems have c: "find_matching_card P IH nns (w q) db index = Inr (line_of q, id_of q)"
    and rest: "\<forall>q \<in> set qs. find_matching_card P IH nns (w q) db index = Inr (line_of q, id_of q)"
    by simp_all
  have u: "[i..<i + length (q # qs)] = i # [Suc i..<Suc i + length qs]"
    using upt_conv_Cons [of i "i + length (q # qs)"] by simp
  have "match_cards P IH nns db index i (map w (q # qs)) acc =
        match_cards P IH nns db index (Suc i) (map w qs) (acc @ [(i, id_of q)])"
    using c by simp
  also have "\<dots> = Inr ((acc @ [(i, id_of q)]) @ zip [Suc i..<Suc i + length qs] (map id_of qs))"
    by (rule Cons.IH [OF rest])
  also have "\<dots> = Inr (acc @ zip [i..<i + length (q # qs)] (map id_of (q # qs)))"
    unfolding u by simp
  finally show ?case .
qed

text \<open>
  C7. As stated the claim fails in three ways. A degenerate quadrilateral is not a
  failure for this program: the mask of four collinear points is rectified and matched,
  and the response has an entry for it. And the request does not always complete: with
  an empty index the lookup for a rectified card raises, and when the detector finds
  nothing line 89 raises; either error ends the request.
\<close>

theorem degenerate_mask_is_matched:
  "process_full_mask toy_cv2 (mask_np diagonal_mask) =
     Some [(0, 0), (255, 255), (254, 254), (253, 253)] \<and>
   collinear_points (ordered_rect_points stable_argsort (\<lambda>x. x)
     \<lparr>rows = 1280, cols = 640, pixels = [1]\<rparr> [(0, 0), (255, 255), (254, 254), (253, 253)]) \<and>
   upload_image toy_cv2 stable_argsort (\<lambda>x. x) (\<lambda>i. Some [triangle_mask, diagonal_mask])
     toy_pil toy_imagehash lookup_nns two_cards two_cards_index (Some toy_upload) =
     Inr (Cards [(0, ''a'')]) \<and>
   upload_image toy_cv2 stable_argsort (\<lambda>x. x) (\<lambda>i. Some [square_mask])
     toy_pil toy_imagehash lookup_nns [] (build (AnnoyIndex 3072) 10) (Some toy_upload) =
     Inl IndexError \<and>
   upload_image toy_cv2 stable_argsort (\<lambda>x. x) (\<lambda>i. None)
     toy_pil toy_imagehash lookup_nns two_cards two_cards_index (Some toy_upload) =
     Inl AttributeError"
proof -
  have fn: "filename toy_upload \<noteq> []" by (simp add: toy_upload_def)
  have "ordered_rect_points stable_argsort (\<lambda>x. x) \<lparr>rows = 1280, cols = 640, pixels = [1]\<rparr>
     [(0, 0), (255, 255), (254, 254), (253, 253)] =
     [(0, 0), (253, 506), (255, 510), (254, 508)]"
    by (simp add: ordered_rect_points_def target_size_def sort_rectangle_points_def
        stable_argsort_def take_idx_def)
  then have c: "collinear_points (ordered_rect_points stable_argsort (\<lambda>x. x)
     \<lparr>rows = 1280, cols = 640, pixels = [1]\<rparr> [(0, 0), (255, 255), (254, 254), (253, 253)])"
    by (simp add: collinear_points_def cross_def)
  have u: "upload_image toy_cv2 stable_argsort (\<lambda>x. x) (\<lambda>i. Some [triangle_mask, diagonal_mask])
     toy_pil toy_imagehash lookup_nns two_cards two_cards_index (Some toy_upload) =
     Inr (Cards [(0, ''a'')])"
    using fn by (simp add: upload_image_def toy_detect_mixed toy_find_two)
  have "find_matching_card toy_pil toy_imagehash lookup_nns toy_card []
      (build (AnnoyIndex 3072) 10) = Inl IndexError"
    by (simp add: find_matching_card_def toy_detected_embedding get_nns_by_vector_def
        lookup_nns_def build_def AnnoyIndex_def item_def)
  then have e: "upload_image toy_cv2 stable_argsort (\<lambda>x. x) (\<lambda>i. Some [square_mask])
     toy_pil toy_imagehash lookup_nns [] (build (AnnoyIndex 3072) 10) (Some toy_upload) =
     Inl IndexError"
    using fn by (simp add: upload_image_def toy_detect_square)
  have n: "upload_image toy_cv2 stable_argsort (\<lambda>x. x) (\<lambda>i. None)
     toy_pil toy_imagehash lookup_nns two_cards two_cards_index (Some toy_upload) =
     Inl AttributeError"
    using fn by (simp add: upload_image_def toy_detect_nothing)
  from toy_diagonal c u e n show ?thesis by blast
qed

text \<open>
  C7, as amended. For an upload that decodes and on which the detector returns masks,
  if the lookup succeeds for every rectified card, the request returns one entry per
  mask, among the first ten, for which \<open>process_full_mask\<close> found a polygon: the entries
  are numbered from 0 in the order of the masks, and each holds the identifier matched
  for the card warped from that mask's polygon. Masks without contours or without a
  four-vertex polygon are left out and reported nowhere; a degenerate quadrilateral is
  a polygon like any other.
\<close>

theorem failed_masks_are_skipped:
  assumes fn: "filename file \<noteq> []" and dec: "imdecode C (stream file) = Some img"
    and det: "predict (resize C (cvtColor C img) target_size) = Some masks"
    and ok: "\<forall>q \<in> set (List.map_filter (\<lambda>m. process_full_mask C (mask_np m)) (take 10 masks)).
               find_matching_card P IH nns (warp_card C a f img (cvtColor C img) q) db index =
                 Inr (line_of q, id_of q)"
  shows "upload_image C a f predict P IH nns db index (Some file) =
           Inr (Cards (zip [0..<length (List.map_filter (\<lambda>m. process_full_mask C (mask_np m))
                                          (take 10 masks))]
                           (map id_of (List.map_filter (\<lambda>m. process_full_mask C (mask_np m))
                                          (take 10 masks))))) \<and>
         length (List.map_filter (\<lambda>m. process_full_mask C (mask_np m)) (take 10 masks)) =
           length (filter (\<lambda>m. process_full_mask C (mask_np m) \<noteq> None) (take 10 masks))"
proof
  let ?quads = "List.map_filter (\<lambda>m. process_full_mask C (mask_np m)) (take 10 masks)"
  let ?cards = "map (warp_card C a f img (cvtColor C img)) ?quads"
  from dec det have d: "detect_edges_and_corners C a f predict (stream file) = Inr (Some ?cards)"
    by (simp add: detect_edges_and_corners_def Let_def process_masks_map_filter)
  have m: "match_cards P IH nns db index 0 ?cards [] =
      Inr ([] @ zip [0..<0 + length ?quads] (map id_of ?quads))"
    by (rule match_cards_map [OF ok])
  from fn d m show "upload_image C a f predict P IH nns db index (Some file) =
      Inr (Cards (zip [0..<length ?quads] (map id_of ?quads)))"
    by (simp add: upload_image_def)
next
  show "length (List.map_filter (\<lambda>m. process_full_mask C (mask_np m)) (take 10 masks)) =
           length (filter (\<lambda>m. process_full_mask C (mask_np m) \<noteq> None) (take 10 masks))"
    by (rule length_map_filter_eq)
qed

theorem failed_masks_are_skipped_witness:
  "filename toy_upload \<noteq> [] \<and>
   imdecode toy_cv2 (stream toy_upload) = Some \<lparr>rows = 1280, cols = 640, pixels = [1]\<rparr> \<and>
   process_full_mask toy_cv2 (mask_np triangle_mask) = None \<and>
   List.map_filter (\<lambda>m. process_full_mask toy_cv2 (mask_np m))
     (take 10 [triangle_mask, diagonal_mask, square_mask]) =
     [[(0, 0), (255, 255), (254, 254), (253, 253)], [(0, 0), (255, 0), (255, 255), (0, 255)]] \<and>
   find_matching_card toy_pil toy_imagehash lookup_nns toy_card two_cards two_cards_index =
     Inr (ClosestMatch ''a'' 0, ''a'') \<and>
   upload_image toy_cv2 stable_argsort (\<lambda>x. x)
     (\<lambda>i. Some [triangle_mask, diagonal_mask, square_mask])
     toy_pil toy_imagehash lookup_nns two_cards two_cards_index (Some toy_upload) =
     Inr (Cards [(0, ''a''), (1, ''a'')])"
proof -
  let ?img = "\<lparr>rows = 1280, cols = 640, pixels = [1]\<rparr>"
  let ?masks = "[triangle_mask, diagonal_mask, square_mask]"
  let ?predict = "\<lambda>i::image. Some ?masks"
  have fn: "filename toy_upload \<noteq> []" by (simp add: toy_upload_def)
  have dec: "imdecode toy_cv2 (stream toy_upload) = Some ?img"
    by (simp add: toy_cv2_simps toy_upload_def)
  have det: "?predict (resize toy_cv2 (cvtColor toy_cv2 ?img) target_size) = Some ?masks"
    by simp
  have quads: "List.map_filter (\<lambda>m. process_full_mask toy_cv2 (mask_np m)) (take 10 ?masks) =
     [[(0, 0), (255, 255), (254, 254), (253, 253)], [(0, 0), (255, 0), (255, 255), (0, 255)]]"
    by (simp add: List.map_filter_def toy_triangle toy_diagonal toy_square)
  have ok: "\<forall>q \<in> set (List.map_filter (\<lambda>m. process_full_mask toy_cv2 (mask_np m)) (take 10 ?masks)).
      find_matching_card toy_pil toy_imagehash lookup_nns
        (warp_card toy_cv2 stable_argsort (\<lambda>x. x) ?img (cvtColor toy_cv2 ?img) q)
        two_cards two_cards_index = Inr ((\<lambda>q. ClosestMatch ''a'' 0) q, (\<lambda>q. ''a'') q)"
    using toy_find_two by (simp add: toy_warp_card toy_card_def)
  from failed_masks_are_skipped [OF fn dec det ok]
  have "upload_image toy_cv2 stable_argsort (\<lambda>x. x) ?predict
     toy_pil toy_imagehash lookup_nns two_cards two_cards_index (Some toy_upload) =
     Inr (Cards (zip [0..<length (List.map_filter (\<lambda>m. process_full_mask toy_cv2 (mask_np m))
                                    (take 10 ?masks))]
                     (map (\<lambda>q. ''a'') (List.map_filter (\<lambda>m. process_full_mask toy_cv2 (mask_np m))
                                    (take 10 ?masks)))))"
    by blast
  then have run: "upload_image toy_cv2 stable_argsort (\<lambda>x. x) ?predict
     toy_pil toy_imagehash lookup_nns two_cards two_cards_index (Some toy_upload) =
     Inr (Cards [(0, ''a''), (1, ''a'')])"
    unfolding quads by (simp add: upt_conv_Cons)
  from fn dec toy_triangle quads toy_find_two run show ?thesis by blast
qed

end
